theory Spec2Isabelle
  imports Main "HOL-Library.AList"
begin

section \<open>JavaScript values\<close>

text \<open>
  Payloads that cross the postMessage boundary (tool arguments, tool results, notification
  parameters) are JSON-like values, plus \<open>undefined\<close> for an absent field. An object is an
  association list of its own properties, an array a list. Numbers are never inspected by
  the code modelled here, so they are carried as integers.
\<close>

datatype jsval =
    JUndefined
  | JNull
  | JBool bool
  | JNum int
  | JStr string
  | JArr "jsval list"
  | JObj "(string \<times> jsval) list"

text \<open>What the source can throw.\<close>

datatype error =
    SyntaxError
  | Error string

text \<open>Truthiness, as \<open>if (v)\<close>, \<open>!v\<close>, \<open>a && b\<close> and \<open>a || b\<close> read a value.\<close>

fun truthy :: "jsval \<Rightarrow> bool" where
  "truthy JUndefined = False"
| "truthy JNull = False"
| "truthy (JBool b) = b"
| "truthy (JNum n) = (n \<noteq> 0)"
| "truthy (JStr s) = (s \<noteq> [])"
| "truthy (JArr xs) = True"
| "truthy (JObj kvs) = True"

text \<open>\<open>typeof v === 'object'\<close>: true of objects, arrays and \<open>null\<close>.\<close>

fun typeofObject :: "jsval \<Rightarrow> bool" where
  "typeofObject JNull = True"
| "typeofObject (JArr xs) = True"
| "typeofObject (JObj kvs) = True"
| "typeofObject v = False"

text \<open>\<open>Object.keys(v).length\<close> for a value that is not \<open>null\<close> or \<open>undefined\<close>.\<close>

fun objectKeysLength :: "jsval \<Rightarrow> nat" where
  "objectKeysLength (JObj kvs) = length (remdups (map fst kvs))"
| "objectKeysLength (JArr xs) = length xs"
| "objectKeysLength (JStr s) = length s"
| "objectKeysLength v = 0"

text \<open>
  \<open>v?.k\<close> for the property names the code reads (\<open>result\<close>, \<open>arguments\<close>, \<open>tool\<close>,
  \<open>name\<close>, \<open>kind\<close>): \<open>undefined\<close> on \<open>null\<close>, \<open>undefined\<close>, primitives and arrays.
\<close>

fun getProp :: "jsval \<Rightarrow> string \<Rightarrow> jsval" where
  "getProp (JObj kvs) k = (case map_of kvs k of None \<Rightarrow> JUndefined | Some v \<Rightarrow> v)"
| "getProp v k = JUndefined"

text \<open>\<open>String.prototype.trim\<close> on the white space and line terminators of Latin-1.\<close>

definition isWhiteSpace :: "char \<Rightarrow> bool" where
  "isWhiteSpace c = (c \<in> set [CHR 0x09, CHR 0x0A, CHR 0x0B, CHR 0x0C, CHR 0x0D, CHR 0x20, CHR 0xA0])"

definition trim :: "string \<Rightarrow> string" where
  "trim s = rev (dropWhile isWhiteSpace (rev (dropWhile isWhiteSpace s)))"

text \<open>\<open>String.prototype.includes\<close>.\<close>

fun startsWith :: "string \<Rightarrow> string \<Rightarrow> bool" where
  "startsWith s [] = True"
| "startsWith [] (c # cs) = False"
| "startsWith (x # xs) (c # cs) = (x = c \<and> startsWith xs cs)"

fun str_includes :: "string \<Rightarrow> string \<Rightarrow> bool" where
  "str_includes [] sub = (sub = [])"
| "str_includes (x # xs) sub = (startsWith (x # xs) sub \<or> str_includes xs sub)"

text \<open>\<open>try { body } catch { handler }\<close> on results with errors as values.\<close>

definition tryCatch :: "error + 'a \<Rightarrow> (error \<Rightarrow> error + 'a) \<Rightarrow> error + 'a" where
  "tryCatch body handler = (case body of Inl e \<Rightarrow> handler e | Inr v \<Rightarrow> Inr v)"


section \<open>Shared utilities (src/utils/mcpUtils.ts)\<close>

text \<open>
  \<open>parseMaybeJson\<close>. \<open>JSON.parse\<close> is the runtime's, so it is a parameter: it returns the
  parsed value or throws \<open>SyntaxError\<close>.
\<close>

definition parseMaybeJson :: "(string \<Rightarrow> error + jsval) \<Rightarrow> jsval \<Rightarrow> error + jsval" where
  "parseMaybeJson JSON_parse v =
     (if v = JUndefined \<or> v = JNull \<or> v = JStr [] then Inr JUndefined
      else if typeofObject v then Inr v
      else (case v of
              JStr s \<Rightarrow>
                if trim s \<noteq> [] then tryCatch (JSON_parse s) (\<lambda>e. Inr v) else Inr v
            | _ \<Rightarrow> Inr v))"

text \<open>\<open>validateToolParams\<close>; the result is read as a boolean by its only caller.\<close>

datatype kind = KPartial | KInput | KResult

definition validateToolParams :: "jsval \<Rightarrow> kind \<Rightarrow> bool" where
  "validateToolParams params kind =
     (if kind = KResult then
        (let result = getProp params ''result''
         in result \<noteq> JUndefined \<and> result \<noteq> JStr [])
      else
        (let args = getProp params ''arguments''
         in truthy args \<and> args \<noteq> JStr [] \<and> typeofObject args \<and> objectKeysLength args > 0))"

text \<open>\<open>'k' in v\<close> on an object.\<close>

fun hasKey :: "jsval \<Rightarrow> string \<Rightarrow> bool" where
  "hasKey (JObj kvs) k = (map_of kvs k \<noteq> None)"
| "hasKey v k = False"

text \<open>Decimal digits of a counter, as a template literal prints a number.\<close>

definition digitChar :: "nat \<Rightarrow> char" where
  "digitChar d = char_of (48 + d)"

fun showNat :: "nat \<Rightarrow> string" where
  "showNat n = (if n < 10 then [digitChar n] else showNat (n div 10) @ [digitChar (n mod 10)])"

declare showNat.simps [simp del]

text \<open>\<open>String(v)\<close>.\<close>

fun joinComma :: "string list \<Rightarrow> string" where
  "joinComma [] = []"
| "joinComma [x] = x"
| "joinComma (x # y # ys) = x @ '','' @ joinComma (y # ys)"

fun toJSString :: "jsval \<Rightarrow> string" where
  "toJSString JUndefined = ''undefined''"
| "toJSString JNull = ''null''"
| "toJSString (JBool b) = (if b then ''true'' else ''false'')"
| "toJSString (JNum n) = (if n < 0 then ''-'' @ showNat (nat (- n)) else showNat (nat n))"
| "toJSString (JStr s) = s"
| "toJSString (JArr xs) =
     joinComma (map (\<lambda>x. if x = JUndefined \<or> x = JNull then [] else toJSString x) xs)"
| "toJSString (JObj kvs) = ''[object Object]''"


section \<open>The host bridge of one app iframe (useMcpHostBridge)\<close>

datatype IframeState = Idle | Loading | Initializing | Ready

text \<open>The options of the hook that the modelled functions read.\<close>

record options =
  appId :: string
  html :: "string option"
  toolInfo :: jsval
  toolArguments :: jsval
  toolResult :: jsval
  persistedState :: jsval
  isComplete :: bool
  hostContext :: "(string \<times> jsval) list"
  hasOnToolCall :: bool

text \<open>
  How a promise returned by \<open>sendRequest\<close> was settled, and what an armed timer will run.
\<close>

datatype outcome = Resolved jsval | RejectedWith jsval | Rejected error

datatype timerAction = RequestTimeout string string | AttemptSend options

text \<open>
  The refs and React state of the hook, and around them what the hook acts on: the
  messages posted to the iframe's window in order, the settlements of the promises of
  \<open>sendRequest\<close> in order, and the runtime's table of armed timers (handle, due time,
  action) with its clock. \<open>iframeStateRef\<close> is the state as of the last render;
  \<open>setIframeState\<close> writes \<open>iframeState\<close> and the next render copies it. Callbacks of the
  host (\<open>onReady\<close>, \<open>onOpenLink\<close>, ...) act outside the bridge and are not recorded.
\<close>

record bridge =
  iframeState :: IframeState
  iframeStateRef :: IframeState
  contentWindow :: bool
  autoHeight :: jsval
  pendingRequests :: "(string \<times> nat) list"
  nextRequestId :: nat
  initializeAttempts :: nat
  initializeTimer :: "nat option"
  pendingNotifications :: "(string \<times> jsval) list"
  sandboxResourceCache :: "(string \<times> (string \<times> jsval) list) list"
  posted :: "jsval list"
  settled :: "(string \<times> outcome) list"
  timers :: "(nat \<times> nat \<times> timerAction) list"
  nextTimer :: nat
  now :: nat

definition newBridge :: bridge where
  "newBridge =
     \<lparr> iframeState = Idle, iframeStateRef = Idle, contentWindow = False, autoHeight = JNull,
       pendingRequests = [], nextRequestId = 0, initializeAttempts = 0,
       initializeTimer = None, pendingNotifications = [], sandboxResourceCache = [],
       posted = [], settled = [], timers = [], nextTimer = 1, now = 0 \<rparr>"

text \<open>\<open>setTimeout\<close> and \<open>clearTimeout\<close>; handles are positive and never reused.\<close>

definition setTimeout :: "timerAction \<Rightarrow> nat \<Rightarrow> bridge \<Rightarrow> nat \<times> bridge" where
  "setTimeout action delay b =
     (nextTimer b,
      b\<lparr>timers := timers b @ [(nextTimer b, now b + delay, action)],
        nextTimer := Suc (nextTimer b)\<rparr>)"

definition clearTimeout :: "nat \<Rightarrow> bridge \<Rightarrow> bridge" where
  "clearTimeout h b = b\<lparr>timers := filter (\<lambda>t. fst t \<noteq> h) (timers b)\<rparr>"

definition postMessage :: "jsval \<Rightarrow> bridge \<Rightarrow> bridge" where
  "postMessage msg b = b\<lparr>posted := posted b @ [msg]\<rparr>"

definition rpcNotification :: "jsval \<Rightarrow> jsval \<Rightarrow> jsval" where
  "rpcNotification method params =
     JObj [(''jsonrpc'', JStr ''2.0''), (''method'', method), (''params'', params)]"

definition rpcRequest :: "string \<Rightarrow> string \<Rightarrow> jsval \<Rightarrow> jsval" where
  "rpcRequest rid method params =
     JObj [(''jsonrpc'', JStr ''2.0''), (''id'', JStr rid), (''method'', JStr method),
           (''params'', params)]"

definition rpcResponse :: "jsval \<Rightarrow> jsval \<Rightarrow> jsval" where
  "rpcResponse rid result =
     JObj [(''jsonrpc'', JStr ''2.0''), (''id'', rid), (''result'', result)]"

definition sendResponse :: "jsval \<Rightarrow> jsval \<Rightarrow> bridge \<Rightarrow> bridge" where
  "sendResponse rid result b =
     (if \<not> contentWindow b then b else postMessage (rpcResponse rid result) b)"

definition sendNotification :: "string \<Rightarrow> jsval \<Rightarrow> bridge \<Rightarrow> bridge" where
  "sendNotification method params b =
     (if \<not> contentWindow b then b else postMessage (rpcNotification (JStr method) params) b)"

text \<open>
  \<open>sendRequest\<close>. The promise it returns is rejected at once without a window
  (\<open>Inl\<close>); otherwise it is the promise of the fresh id (\<open>Inr\<close>), settled later.
\<close>

definition requestId :: "nat \<Rightarrow> string" where
  "requestId n = ''host-'' @ showNat n"

definition sendRequest :: "string \<Rightarrow> jsval \<Rightarrow> nat \<Rightarrow> bridge \<Rightarrow> (error + string) \<times> bridge" where
  "sendRequest method params timeout b =
     (if \<not> contentWindow b then (Inl (Error ''Iframe not ready''), b)
      else
        let b1 = b\<lparr>nextRequestId := Suc (nextRequestId b)\<rparr>;
            rid = requestId (nextRequestId b1);
            (timer, b2) = setTimeout (RequestTimeout rid method) timeout b1;
            b3 = b2\<lparr>pendingRequests := AList.update rid timer (pendingRequests b2)\<rparr>
        in (Inr rid, postMessage (rpcRequest rid method params) b3))"

text \<open>\<open>sendToolNotification\<close>.\<close>

definition notificationKind :: "string \<Rightarrow> kind" where
  "notificationKind method =
     (if str_includes method ''result'' then KResult
      else if str_includes method ''partial'' then KPartial else KInput)"

definition sendToolNotification :: "string \<Rightarrow> jsval \<Rightarrow> bridge \<Rightarrow> bridge" where
  "sendToolNotification method params b =
     (if \<not> validateToolParams params (notificationKind method) then b
      else if iframeStateRef b = Ready \<and> contentWindow b
        then postMessage (rpcNotification (JStr method) params) b
      else b\<lparr>pendingNotifications := pendingNotifications b @ [(method, params)]\<rparr>)"

text \<open>Initialization with retry: \<open>sendInitialize\<close>, \<open>attemptSend\<close>, \<open>sendInitializeWithRetry\<close>.\<close>

definition DEFAULT_MCP_HOST_CAPABILITIES :: jsval where
  "DEFAULT_MCP_HOST_CAPABILITIES =
     JObj [(''openLinks'', JObj []),
           (''botdojo/persistence'', JBool True),
           (''extensions'',
              JObj [(''io.modelcontextprotocol/ui'',
                JObj [(''mimeTypes'',
                  JArr [JStr ''text/html+mcp'', JStr ''text/html;profile=mcp-app''])])])]"

text \<open>\<open>{ ...a, ...b }\<close> on the own properties of two objects.\<close>

definition spread :: "(string \<times> jsval) list \<Rightarrow> (string \<times> jsval) list \<Rightarrow> (string \<times> jsval) list" where
  "spread a b = AList.updates (map fst b) (map snd b) a"

definition initializeParams :: "options \<Rightarrow> jsval" where
  "initializeParams opts =
     JObj [(''protocolVersion'', JStr ''mcp-apps/0.1''),
           (''appInfo'', JObj [(''name'', JStr ''McpAppHost''), (''version'', JStr ''1.0.0'')]),
           (''hostCapabilities'', DEFAULT_MCP_HOST_CAPABILITIES),
           (''hostContext'',
              JObj (spread [(''mcpAppId'', JStr (appId opts)), (''state'', persistedState opts),
                            (''toolInfo'', toolInfo opts)] (hostContext opts)))]"

definition sendInitialize :: "options \<Rightarrow> bridge \<Rightarrow> bridge" where
  "sendInitialize opts b =
     (if iframeStateRef b = Ready \<or> \<not> contentWindow b then b
      else snd (sendRequest ''ui/initialize'' (initializeParams opts) 2000 b))"

definition attemptSend :: "options \<Rightarrow> bridge \<Rightarrow> bridge" where
  "attemptSend opts b =
     (if iframeStateRef b = Ready then b
      else
        let b1 = b\<lparr>initializeAttempts := initializeAttempts b + 1\<rparr>;
            b2 = sendInitialize opts b1
        in if initializeAttempts b2 < 5
           then (let (timer, b3) = setTimeout (AttemptSend opts) 300 b2
                 in b3\<lparr>initializeTimer := Some timer\<rparr>)
           else b2\<lparr>initializeTimer := None\<rparr>)"

definition sendInitializeWithRetry :: "options \<Rightarrow> bridge \<Rightarrow> bridge" where
  "sendInitializeWithRetry opts b =
     (if iframeStateRef b = Ready then b
      else
        let b1 = (case initializeTimer b of None \<Rightarrow> b | Some t \<Rightarrow> clearTimeout t b)
        in attemptSend opts (b1\<lparr>initializeAttempts := 0\<rparr>))"

text \<open>
  Hydration: \<open>sendHydrationData\<close>. An exception of \<open>parseMaybeJson\<close> would leave the
  function before anything is posted.
\<close>

definition toolInputMessage :: "jsval \<Rightarrow> jsval \<Rightarrow> jsval" where
  "toolInputMessage toolName args =
     rpcNotification (JStr ''ui/notifications/tool-input'')
       (JObj [(''tool'', JObj [(''name'', toolName)]), (''arguments'', args)])"

definition toolResultMessage :: "jsval \<Rightarrow> jsval \<Rightarrow> jsval" where
  "toolResultMessage toolName result =
     rpcNotification (JStr ''ui/notifications/tool-result'')
       (JObj [(''tool'', JObj [(''name'', toolName)]), (''result'', result)])"

definition sendHydrationData :: "(string \<Rightarrow> error + jsval) \<Rightarrow> options \<Rightarrow> bridge \<Rightarrow> error + bridge" where
  "sendHydrationData JSON_parse opts b =
     (let toolName = getProp (getProp (toolInfo opts) ''tool'') ''name''
      in if \<not> truthy toolName \<or> \<not> contentWindow b then Inr b
         else
           case parseMaybeJson JSON_parse (toolArguments opts) of
             Inl e \<Rightarrow> Inl e
           | Inr args \<Rightarrow>
           (case parseMaybeJson JSON_parse (toolResult opts) of
             Inl e \<Rightarrow> Inl e
           | Inr result \<Rightarrow>
               let b1 = (if truthy args \<and> typeofObject args \<and> objectKeysLength args > 0
                         then postMessage (toolInputMessage toolName args) b else b)
               in Inr (if result \<noteq> JUndefined \<and> result \<noteq> JStr []
                       then postMessage (toolResultMessage toolName result) b1
                       else if isComplete opts
                       then postMessage
                              (toolResultMessage toolName (JObj [(''completed'', JBool True)])) b1
                       else b1)))"

text \<open>\<open>handleMessage\<close>, branch by branch.\<close>

definition handleResponse :: "jsval \<Rightarrow> bridge \<Rightarrow> bridge" where
  "handleResponse data b =
     (let rid = toJSString (getProp data ''id'')
      in case map_of (pendingRequests b) rid of
           None \<Rightarrow> b
         | Some timer \<Rightarrow>
             let b1 = (if timer \<noteq> 0 then clearTimeout timer b else b);
                 b2 = b1\<lparr>pendingRequests := AList.delete rid (pendingRequests b1)\<rparr>
             in if hasKey data ''error''
                then b2\<lparr>settled := settled b2 @ [(rid, RejectedWith (getProp data ''error''))]\<rparr>
                else b2\<lparr>settled := settled b2 @ [(rid, Resolved (getProp data ''result''))]\<rparr>)"

definition cancelInitializeTimer :: "bridge \<Rightarrow> bridge" where
  "cancelInitializeTimer b =
     (case initializeTimer b of
        None \<Rightarrow> b
      | Some t \<Rightarrow> (clearTimeout t b)\<lparr>initializeTimer := None\<rparr>)"

definition replayQueuedNotifications :: "bridge \<Rightarrow> bridge" where
  "replayQueuedNotifications b =
     (if length (pendingNotifications b) > 0 \<and> contentWindow b
      then b\<lparr>posted := posted b @
                 map (\<lambda>(method, params). rpcNotification (JStr method) params)
                     (pendingNotifications b),
             pendingNotifications := []\<rparr>
      else b)"

definition handleInitialized :: "(string \<Rightarrow> error + jsval) \<Rightarrow> options \<Rightarrow> bridge \<Rightarrow> bridge" where
  "handleInitialized JSON_parse opts b =
     (let b1 = cancelInitializeTimer b;
          b2 = b1\<lparr>iframeState := Ready\<rparr>
      in case sendHydrationData JSON_parse opts b2 of
           Inl e \<Rightarrow> b2
         | Inr b3 \<Rightarrow> replayQueuedNotifications b3)"

definition sandboxAllow :: jsval where
  "sandboxAllow = JStr ''allow-scripts allow-same-origin''"

definition handleSandboxReady :: "options \<Rightarrow> jsval \<Rightarrow> bridge \<Rightarrow> bridge" where
  "handleSandboxReady opts params b =
     (let resource = getProp params ''resource''
      in case html opts of
           None \<Rightarrow> b
         | Some h \<Rightarrow>
             if truthy resource \<and> h \<noteq> []
             then sendNotification ''ui/notifications/sandbox-resource-ready''
                    (JObj [(''resource'', resource), (''html'', JStr h), (''sandbox'', sandboxAllow)]) b
             else b)"

text \<open>
  A request for a sandbox resource is served from the cache, then from the inline HTML.
  The resolver callback of the host runs asynchronously; what it posts belongs to a
  later task and is not part of this step.
\<close>

definition handleSandboxResource :: "options \<Rightarrow> jsval \<Rightarrow> bridge \<Rightarrow> bridge" where
  "handleSandboxResource opts params b =
     (let resource = getProp params ''resource'';
          flowId = getProp params ''flowId''
      in if \<not> truthy resource then b
         else
           let cacheKey = toJSString (if truthy flowId then flowId else JStr ''unknown'')
                            @ ''|'' @ toJSString resource
           in case map_of (sandboxResourceCache b) cacheKey of
                Some cached \<Rightarrow>
                  sendNotification ''ui/notifications/sandbox-resource-ready''
                    (JObj (spread [(''resource'', resource), (''flowId'', flowId)] cached)) b
              | None \<Rightarrow>
                  (case html opts of
                     None \<Rightarrow> b
                   | Some h \<Rightarrow>
                       if h = [] then b
                       else
                         let entry = [(''html'', JStr h), (''sandbox'', sandboxAllow)];
                             b1 = b\<lparr>sandboxResourceCache :=
                                       AList.update cacheKey entry (sandboxResourceCache b)\<rparr>
                         in sendNotification ''ui/notifications/sandbox-resource-ready''
                              (JObj (spread [(''resource'', resource), (''flowId'', flowId)] entry))
                              b1))"

definition handleLegacyInitialize :: "options \<Rightarrow> jsval \<Rightarrow> bridge \<Rightarrow> bridge" where
  "handleLegacyInitialize opts rid b =
     (let b1 = sendResponse rid
                 (JObj [(''appInfo'',
                           JObj [(''name'', JStr ''McpAppHost''), (''version'', JStr ''1.0.0'')]),
                        (''hostCapabilities'', DEFAULT_MCP_HOST_CAPABILITIES),
                        (''hostContext'',
                           JObj (spread [(''state'', persistedState opts),
                                         (''toolInfo'', toolInfo opts)] (hostContext opts)))]) b;
          b2 = sendNotification ''ui/notifications/initialized'' (JObj []) b1;
          b3 = cancelInitializeTimer b2
      in b3\<lparr>iframeState := Ready\<rparr>)"

definition ackIfRequest :: "jsval \<Rightarrow> jsval \<Rightarrow> bridge \<Rightarrow> bridge" where
  "ackIfRequest rid result b = (if rid \<noteq> JUndefined then sendResponse rid result b else b)"

text \<open>
  \<open>tools/call\<close> with a handler answers when the handler's promise settles, in a later
  task; without one it answers at once.
\<close>

definition handleToolsCall :: "options \<Rightarrow> jsval \<Rightarrow> jsval \<Rightarrow> bridge \<Rightarrow> bridge" where
  "handleToolsCall opts params rid b =
     (let toolName = (if truthy (getProp params ''name'') then getProp params ''name''
                      else getProp params ''tool'')
      in if hasOnToolCall opts \<and> truthy toolName then b
         else ackIfRequest rid
                (JObj [(''ok'', JBool False), (''error'', JStr ''No tool handler'')]) b)"

definition handleSizeChange :: "jsval \<Rightarrow> bridge \<Rightarrow> bridge" where
  "handleSizeChange params b =
     (if truthy (getProp params ''height'') then b\<lparr>autoHeight := getProp params ''height''\<rparr>
      else b)"

definition handleMessage :: "(string \<Rightarrow> error + jsval) \<Rightarrow> options \<Rightarrow> jsval \<Rightarrow> bridge \<Rightarrow> bridge" where
  "handleMessage JSON_parse opts data b =
     (if \<not> truthy data \<or> getProp data ''jsonrpc'' \<noteq> JStr ''2.0'' then b
      else if hasKey data ''id'' \<and> \<not> hasKey data ''method'' then handleResponse data b
      else
        let method = getProp data ''method''; params = getProp data ''params'';
            rid = getProp data ''id''
        in if method = JStr ''ui/notifications/client-ready''
             then sendInitializeWithRetry opts b
           else if method = JStr ''ui/notifications/sandbox-ready''
                 \<or> method = JStr ''ui/notifications/sandbox-proxy-ready''
             then handleSandboxReady opts params b
           else if method = JStr ''ui/requests/sandbox-resource''
             then handleSandboxResource opts params b
           else if method = JStr ''ui/notifications/initialized''
             then handleInitialized JSON_parse opts b
           else if method = JStr ''ui/initialize''
             then handleLegacyInitialize opts rid b
           else if method = JStr ''ui/open-link''
             then ackIfRequest rid (JObj [(''ok'', JBool True)]) b
           else if method = JStr ''tools/call''
             then handleToolsCall opts params rid b
           else if method = JStr ''ui/message''
             then ackIfRequest rid (JObj [(''ok'', JBool True)]) b
           else if method = JStr ''ui/size-change'' \<or> method = JStr ''ui/notifications/size-change''
             then handleSizeChange params b
           else ackIfRequest rid (JObj [(''ok'', JBool True), (''ignored'', JBool True)]) b)"

text \<open>
  The runtime fires an armed timer: the timer is disarmed and its callback runs. The
  callback of a request's timer deletes the request and rejects its promise.
\<close>

definition fireTimer :: "nat \<Rightarrow> bridge \<Rightarrow> bridge" where
  "fireTimer h b =
     (case find (\<lambda>t. fst t = h) (timers b) of
        None \<Rightarrow> b
      | Some (h', due, action) \<Rightarrow>
          let b1 = clearTimeout h b
          in (case action of
                RequestTimeout rid method \<Rightarrow>
                  b1\<lparr>pendingRequests := AList.delete rid (pendingRequests b1),
                     settled := settled b1 @ [(rid, Rejected (Error (''Request timeout: '' @ method)))]\<rparr>
              | AttemptSend opts \<Rightarrow> attemptSend opts b1))"

text \<open>The cleanup of the unmount effect.\<close>

definition rejectUnmounted :: "string \<times> nat \<Rightarrow> bridge \<Rightarrow> bridge" where
  "rejectUnmounted entry b =
     (let b1 = (if snd entry \<noteq> 0 then clearTimeout (snd entry) b else b)
      in b1\<lparr>settled := settled b1 @ [(fst entry, Rejected (Error ''Component unmounted''))]\<rparr>)"

definition unmount :: "bridge \<Rightarrow> bridge" where
  "unmount b =
     (let b1 = (case initializeTimer b of None \<Rightarrow> b | Some t \<Rightarrow> clearTimeout t b);
          b2 = fold rejectUnmounted (pendingRequests b1) b1
      in b2\<lparr>pendingRequests := []\<rparr>)"

text \<open>A render copies the React state into the ref that the callbacks read.\<close>

definition render :: "bridge \<Rightarrow> bridge" where
  "render b = b\<lparr>iframeStateRef := iframeState b\<rparr>"

text \<open>
  What can happen to a bridge, one task at a time. A timer fires once it is due; the
  clock does not pass the due time of an armed timer without the timer firing first.
\<close>

datatype event =
    CallSendRequest string jsval nat
  | Message jsval
  | ToolNotification string jsval
  | InitializeWithRetry
  | Fire nat
  | Elapse nat
  | Render
  | SetWindow bool
  | Unmount

definition step :: "(string \<Rightarrow> error + jsval) \<Rightarrow> options \<Rightarrow> event \<Rightarrow> bridge \<Rightarrow> bridge option" where
  "step JSON_parse opts ev b =
     (case ev of
        CallSendRequest method params timeout \<Rightarrow> Some (snd (sendRequest method params timeout b))
      | Message data \<Rightarrow> Some (handleMessage JSON_parse opts data b)
      | ToolNotification method params \<Rightarrow> Some (sendToolNotification method params b)
      | InitializeWithRetry \<Rightarrow> Some (sendInitializeWithRetry opts b)
      | Fire h \<Rightarrow>
          (if \<exists>t \<in> set (timers b). fst t = h \<and> fst (snd t) \<le> now b
           then Some (fireTimer h b) else None)
      | Elapse d \<Rightarrow>
          (if \<forall>t \<in> set (timers b). now b + d \<le> fst (snd t)
           then Some (b\<lparr>now := now b + d\<rparr>) else None)
      | Render \<Rightarrow> Some (render b)
      | SetWindow w \<Rightarrow> Some (b\<lparr>contentWindow := w\<rparr>)
      | Unmount \<Rightarrow> Some (unmount b))"

fun run :: "(string \<Rightarrow> error + jsval) \<Rightarrow> options \<Rightarrow> event list \<Rightarrow> bridge \<Rightarrow> bridge option" where
  "run JSON_parse opts [] b = Some b"
| "run JSON_parse opts (ev # evs) b =
     (case step JSON_parse opts ev b of
        None \<Rightarrow> None
      | Some b' \<Rightarrow> run JSON_parse opts evs b')"


section \<open>The chat provider (BotDojoChatProvider): routing to apps\<close>

text \<open>
  A tool of the model context: its name and, when it has one, its \<open>execute\<close> function.
  Running \<open>execute\<close> on arguments yields the notifications the tool issues through its
  execution context while it runs, then its return value or the exception it throws.
\<close>

datatype toolAction = NotifyToolInputPartial jsval | NotifyToolResult jsval

record tool =
  name :: string
  execute :: "(jsval \<Rightarrow> toolAction list \<times> (error + jsval)) option"

text \<open>A model context: \<open>ctxName\<close> is its \<open>name\<close>, \<open>tools\<close> its tools (absent, or listed).\<close>

record modelContext =
  ctxName :: "string option"
  tools :: "tool list option"

text \<open>The fields of a raw server step that the registration of the active app reads.\<close>

record canvas =
  canvasId :: "string option"

record rawStep =
  stepToolName :: "string option"
  stepLabel :: "string option"
  stepId :: "string option"
  stepCanvas :: "canvas option"

text \<open>
  A sender or a callback registered by a mounted app is opaque; a call of it is recorded
  with its arguments. An exception thrown by a sender is caught and logged by the
  provider, so it changes nothing here.
\<close>

datatype ('s, 'c) call = SenderCall 's string jsval | CallbackCall 'c jsval

record ('s, 'c) provider =
  modelContextRef :: "modelContext list option"
  toolNotificationSenders :: "(string \<times> 's) list"
  stepUpdateCallbacks :: "(string \<times> 'c) list"
  activeAppByTool :: "string \<rightharpoonup> string"
  stepIdToAppId :: "string \<rightharpoonup> string"
  pendingToolNotifications :: "string \<rightharpoonup> (string \<times> jsval) list"
  pendingBroadcastNotifications :: "(string \<times> jsval \<times> jsval) list"
  toolArgumentsCache :: "string \<rightharpoonup> jsval"
  mcpAppDataCache :: "string \<rightharpoonup> (string \<times> jsval) list"
  mcpAppDataVersion :: nat
  pendingStepUpdates :: "string \<rightharpoonup> jsval list"
  calls :: "('s, 'c) call list"

definition newProvider :: "modelContext list option \<Rightarrow> ('s, 'c) provider" where
  "newProvider ctx =
     \<lparr> modelContextRef = ctx, toolNotificationSenders = [], stepUpdateCallbacks = [],
       activeAppByTool = Map.empty, stepIdToAppId = Map.empty,
       pendingToolNotifications = Map.empty, pendingBroadcastNotifications = [],
       toolArgumentsCache = Map.empty, mcpAppDataCache = Map.empty, mcpAppDataVersion = 0,
       pendingStepUpdates = Map.empty, calls = [] \<rparr>"

text \<open>Truthiness of an optional string.\<close>

definition truthyStr :: "string option \<Rightarrow> bool" where
  "truthyStr s = (case s of None \<Rightarrow> False | Some x \<Rightarrow> x \<noteq> [])"

text \<open>\<open>sendToolNotificationToApp\<close>.\<close>

definition sendToolNotificationToApp ::
  "string \<Rightarrow> string \<Rightarrow> jsval \<Rightarrow> ('s, 'c) provider \<Rightarrow> ('s, 'c) provider" where
  "sendToolNotificationToApp app method params p =
     (case map_of (toolNotificationSenders p) app of
        Some sender \<Rightarrow> p\<lparr>calls := calls p @ [SenderCall sender method params]\<rparr>
      | None \<Rightarrow>
          p\<lparr>pendingToolNotifications :=
               (pendingToolNotifications p)
                 (app \<mapsto> (case pendingToolNotifications p app of None \<Rightarrow> [] | Some q \<Rightarrow> q)
                            @ [(method, params)])\<rparr>)"

text \<open>\<open>broadcastToolNotification\<close>.\<close>

definition broadcastToolNotification ::
  "string \<Rightarrow> jsval \<Rightarrow> string option \<Rightarrow> ('s, 'c) provider \<Rightarrow> ('s, 'c) provider" where
  "broadcastToolNotification method params toolName p =
     (if length (toolNotificationSenders p) = 0
      then p\<lparr>pendingBroadcastNotifications :=
               pendingBroadcastNotifications p @
                 [(method, params,
                   if truthyStr toolName then JStr (the toolName)
                   else if truthy (getProp (getProp params ''tool'') ''name'')
                     then getProp (getProp params ''tool'') ''name''
                   else JStr [])]\<rparr>
      else p\<lparr>calls := calls p @
                 map (\<lambda>(app, sender). SenderCall sender method params)
                     (toolNotificationSenders p)\<rparr>)"

text \<open>
  \<open>registerToolNotificationSender\<close>, and the cleanup function it returns
  (\<open>unregisterToolNotificationSender\<close>).
\<close>

definition replayPendingForApp :: "string \<Rightarrow> 's \<Rightarrow> ('s, 'c) provider \<Rightarrow> ('s, 'c) provider" where
  "replayPendingForApp app sender p =
     (case pendingToolNotifications p app of
        None \<Rightarrow> p
      | Some pendingForApp \<Rightarrow>
          if length pendingForApp > 0
          then p\<lparr>calls := calls p @
                     map (\<lambda>(method, params). SenderCall sender method params) pendingForApp,
                 pendingToolNotifications := (pendingToolNotifications p)(app := None)\<rparr>
          else p)"

definition replayPendingBroadcasts :: "'s \<Rightarrow> ('s, 'c) provider \<Rightarrow> ('s, 'c) provider" where
  "replayPendingBroadcasts sender p =
     (if length (pendingBroadcastNotifications p) > 0
      then p\<lparr>calls := calls p @
                 map (\<lambda>(method, params, toolName). SenderCall sender method params)
                     (pendingBroadcastNotifications p),
             pendingBroadcastNotifications := []\<rparr>
      else p)"

definition registerToolNotificationSender ::
  "string \<Rightarrow> 's \<Rightarrow> ('s, 'c) provider \<Rightarrow> ('s, 'c) provider" where
  "registerToolNotificationSender app sender p =
     replayPendingBroadcasts sender
       (replayPendingForApp app sender
          (p\<lparr>toolNotificationSenders := AList.update app sender (toolNotificationSenders p)\<rparr>))"

definition unregisterToolNotificationSender :: "string \<Rightarrow> ('s, 'c) provider \<Rightarrow> ('s, 'c) provider" where
  "unregisterToolNotificationSender app p =
     p\<lparr>toolNotificationSenders := AList.delete app (toolNotificationSenders p)\<rparr>"

text \<open>\<open>registerStepUpdateCallback\<close> and its cleanup function.\<close>

definition registerStepUpdateCallback ::
  "string \<Rightarrow> 'c \<Rightarrow> ('s, 'c) provider \<Rightarrow> ('s, 'c) provider" where
  "registerStepUpdateCallback app callback p =
     (let p1 = p\<lparr>stepUpdateCallbacks := AList.update app callback (stepUpdateCallbacks p)\<rparr>
      in case pendingStepUpdates p1 app of
           None \<Rightarrow> p1
         | Some pendingUpdates \<Rightarrow>
             if length pendingUpdates > 0
             then p1\<lparr>calls := calls p1 @ map (CallbackCall callback) pendingUpdates,
                     pendingStepUpdates := (pendingStepUpdates p1)(app := None)\<rparr>
             else p1)"

definition unregisterStepUpdateCallback :: "string \<Rightarrow> ('s, 'c) provider \<Rightarrow> ('s, 'c) provider" where
  "unregisterStepUpdateCallback app p =
     p\<lparr>stepUpdateCallbacks := AList.delete app (stepUpdateCallbacks p)\<rparr>"

text \<open>
  The registration of the active app of a tool, at the head of the \<open>step_update\<close> case of
  the provider's message handler.
\<close>

definition orElse :: "string option \<Rightarrow> string option \<Rightarrow> string option" where
  "orElse a b = (if truthyStr a then a else b)"

definition registerActiveApp :: "rawStep \<Rightarrow> ('s, 'c) provider \<Rightarrow> ('s, 'c) provider" where
  "registerActiveApp rs p =
     (case stepCanvas rs of
        None \<Rightarrow> p
      | Some cv \<Rightarrow>
          let toolName = orElse (stepToolName rs) (stepLabel rs);
              app = canvasId cv;
              p1 = (if truthyStr toolName \<and> truthyStr app
                    then p\<lparr>activeAppByTool := (activeAppByTool p)(the toolName \<mapsto> the app)\<rparr>
                    else p)
          in if truthyStr (stepId rs) \<and> truthyStr app
             then p1\<lparr>stepIdToAppId := (stepIdToAppId p1)(the (stepId rs) \<mapsto> the app)\<rparr>
             else p1)"



text \<open>
  \<open>executeToolCall\<close>. The step updates that the execution context builds for the tool's
  notifications, their delivery to the resolved app (or to every registered callback),
  and the resolution of the target app.
\<close>

definition partialStepUpdate :: "string \<Rightarrow> jsval \<Rightarrow> jsval" where
  "partialStepUpdate toolName data =
     (let isProgressUpdate = (getProp data ''kind'' = JStr ''botdojo-tool-progress'')
      in JObj [(''stepToolName'', JStr toolName),
               (''toolName'', JStr toolName),
               (''stepToolArguments'', if isProgressUpdate then JUndefined else data),
               (''arguments'', if isProgressUpdate then JUndefined else data),
               (''stepToolProgress'', if isProgressUpdate then data else JUndefined),
               (''stepStatus'', JStr ''processing'')])"

definition resultStepUpdate :: "string \<Rightarrow> jsval \<Rightarrow> jsval" where
  "resultStepUpdate toolName data =
     (let r = (if getProp data ''result'' = JUndefined \<or> getProp data ''result'' = JNull
               then data else getProp data ''result'')
      in JObj [(''stepToolName'', JStr toolName),
               (''toolName'', JStr toolName),
               (''stepToolResult'', r),
               (''result'', r),
               (''stepStatus'', JStr ''complete'')])"

definition deliverStepUpdate ::
  "string option \<Rightarrow> jsval \<Rightarrow> ('s, 'c) provider \<Rightarrow> ('s, 'c) provider" where
  "deliverStepUpdate resolvedAppId stepUpdate p =
     (if truthyStr resolvedAppId
      then (case map_of (stepUpdateCallbacks p) (the resolvedAppId) of
              Some callback \<Rightarrow> p\<lparr>calls := calls p @ [CallbackCall callback stepUpdate]\<rparr>
            | None \<Rightarrow>
                p\<lparr>pendingStepUpdates :=
                     (pendingStepUpdates p)
                       (the resolvedAppId \<mapsto>
                          (case pendingStepUpdates p (the resolvedAppId) of
                             None \<Rightarrow> [] | Some q \<Rightarrow> q) @ [stepUpdate])\<rparr>)
      else p\<lparr>calls := calls p @
                 map (\<lambda>(app, callback). CallbackCall callback stepUpdate)
                     (stepUpdateCallbacks p)\<rparr>)"

definition toolActionStepUpdate :: "string \<Rightarrow> toolAction \<Rightarrow> jsval" where
  "toolActionStepUpdate toolName a =
     (case a of
        NotifyToolInputPartial data \<Rightarrow> partialStepUpdate toolName data
      | NotifyToolResult data \<Rightarrow> resultStepUpdate toolName data)"

definition resolveAppId ::
  "string option \<Rightarrow> string \<Rightarrow> modelContext \<Rightarrow> ('s, 'c) provider \<Rightarrow> string option" where
  "resolveAppId targetAppId toolName context p =
     (if truthyStr targetAppId then targetAppId
      else
        let resolvedAppId = activeAppByTool p toolName
        in if \<not> truthyStr resolvedAppId \<and> truthyStr (ctxName context)
           then activeAppByTool p (the (ctxName context) @ ''_'' @ toolName)
           else resolvedAppId)"

fun findTool ::
  "string \<Rightarrow> modelContext list \<Rightarrow>
     (modelContext \<times> (jsval \<Rightarrow> toolAction list \<times> (error + jsval))) option" where
  "findTool toolName [] = None"
| "findTool toolName (context # contexts) =
     (case tools context of
        None \<Rightarrow> findTool toolName contexts
      | Some toolsArray \<Rightarrow>
          (case find (\<lambda>t. name t = toolName) toolsArray of
             None \<Rightarrow> findTool toolName contexts
           | Some t \<Rightarrow>
               (case execute t of
                  None \<Rightarrow> findTool toolName contexts
                | Some f \<Rightarrow> Some (context, f))))"

definition executeToolCall ::
  "string \<Rightarrow> jsval \<Rightarrow> string option \<Rightarrow> ('s, 'c) provider \<Rightarrow> (error + jsval) \<times> ('s, 'c) provider" where
  "executeToolCall toolName args targetAppId p =
     (case modelContextRef p of
        None \<Rightarrow> (Inl (Error ''No model context available''), p)
      | Some contexts \<Rightarrow>
          (case findTool toolName contexts of
             None \<Rightarrow> (Inl (Error (''Tool not found: '' @ toolName)), p)
           | Some (context, f) \<Rightarrow>
               let resolvedAppId = resolveAppId targetAppId toolName context p;
                   p1 = p\<lparr>toolArgumentsCache := (toolArgumentsCache p)(toolName \<mapsto> args)\<rparr>;
                   p2 = (if truthyStr resolvedAppId
                         then p1\<lparr>toolArgumentsCache :=
                                   (toolArgumentsCache p1)(the resolvedAppId \<mapsto> args)\<rparr>
                         else p1);
                   (actions, outcome) = f args;
                   p3 = fold (\<lambda>a. deliverStepUpdate resolvedAppId (toolActionStepUpdate toolName a))
                             actions p2
               in (case outcome of
                     Inl e \<Rightarrow> (Inl e, p3)
                   | Inr result \<Rightarrow>
                       (Inr result,
                        if result \<noteq> JUndefined
                        then deliverStepUpdate resolvedAppId (resultStepUpdate toolName result) p3
                        else p3))))"


section \<open>The connector: resource URI templates (BotDojoConnector)\<close>



text \<open>
  The regular expressions that \<open>new RegExp('^' + regexPattern + '$')\<close> is modelled on:
  ordinary characters, the dot, and the group \<open>(.+)\<close>. A pattern with any other regular
  expression syntax is outside the model (\<open>None\<close>); the runtime may also reject it.
\<close>

datatype rtoken = RChar char | RAny | RGroup


definition isRegexSyntax :: "char \<Rightarrow> bool" where
  "isRegexSyntax c = (c \<in> set (CHR 0x5C # ''^$.*+?()[]{}|''))"

fun parseRegex :: "string \<Rightarrow> rtoken list option" where
  "parseRegex [] = Some []"
| "parseRegex (c # cs) =
     (if c = CHR ''('' \<and> startsWith cs ''.+)''
        then map_option (Cons RGroup) (parseRegex (drop 3 cs))
      else if c = CHR ''.'' then map_option (Cons RAny) (parseRegex cs)
      else if isRegexSyntax c then None
      else map_option (Cons (RChar c)) (parseRegex cs))"







text \<open>
  What the specification says hydration sends, for a tool name, the parsed arguments and
  result, and the completion flag: one \<open>tool-input\<close> notification when the arguments are a
  non-empty object, then one \<open>tool-result\<close> notification with the recorded result when
  there is one, and otherwise the synthetic result \<open>{completed: true}\<close> when the step is
  complete.
\<close>

fun nonEmptyObject :: "jsval \<Rightarrow> bool" where
  "nonEmptyObject (JObj kvs) = (kvs \<noteq> [])"
| "nonEmptyObject (JArr xs) = (xs \<noteq> [])"
| "nonEmptyObject v = False"

definition specHydration :: "jsval \<Rightarrow> jsval \<Rightarrow> jsval \<Rightarrow> bool \<Rightarrow> jsval list" where
  "specHydration toolName args result complete =
     (if nonEmptyObject args then [toolInputMessage toolName args] else [])
     @ (if result \<noteq> JUndefined \<and> result \<noteq> JStr [] then [toolResultMessage toolName result]
        else if complete then [toolResultMessage toolName (JObj [(''completed'', JBool True)])]
        else [])"

text \<open>The \<open>initialized\<close> acknowledgment of an app, and a queued notification as it is posted.\<close>

definition isInitialized :: "jsval \<Rightarrow> bool" where
  "isInitialized data =
     (getProp data ''jsonrpc'' = JStr ''2.0''
      \<and> getProp data ''method'' = JStr ''ui/notifications/initialized'')"

definition queuedMessage :: "string \<times> jsval \<Rightarrow> jsval" where
  "queuedMessage n = rpcNotification (JStr (fst n)) (snd n)"

text \<open>The queue of an app, empty when the map has no entry for it.\<close>

definition queueOf :: "('s, 'c) provider \<Rightarrow> string \<Rightarrow> (string \<times> jsval) list" where
  "queueOf p app = (case pendingToolNotifications p app of None \<Rightarrow> [] | Some q \<Rightarrow> q)"

text \<open>The calls of a sender that deliver a list of notifications, in the order of the list.\<close>

definition deliveries :: "'s \<Rightarrow> (string \<times> jsval) list \<Rightarrow> ('s, 'c) call list" where
  "deliveries sender ns = map (\<lambda>n. SenderCall sender (fst n) (snd n)) ns"

definition enqueueAll ::
  "string \<Rightarrow> (string \<times> jsval) list \<Rightarrow> ('s, 'c) provider \<Rightarrow> ('s, 'c) provider" where
  "enqueueAll app ns p = fold (\<lambda>n. sendToolNotificationToApp app (fst n) (snd n)) ns p"

definition broadcastAll ::
  "(string \<times> jsval) list \<Rightarrow> ('s, 'c) provider \<Rightarrow> ('s, 'c) provider" where
  "broadcastAll ns p = fold (\<lambda>n. broadcastToolNotification (fst n) (snd n) None) ns p"

definition notifyAll :: "(string \<times> jsval) list \<Rightarrow> bridge \<Rightarrow> bridge" where
  "notifyAll ns b = fold (\<lambda>n. sendToolNotification (fst n) (snd n)) ns b"

text \<open>
  The step updates that one call of \<open>executeToolCall\<close> issues, in order: one for each
  notification of the tool, then one for its return value unless that is \<open>undefined\<close> or
  the tool threw.
\<close>

definition toolStepUpdates :: "string \<Rightarrow> toolAction list \<Rightarrow> error + jsval \<Rightarrow> jsval list" where
  "toolStepUpdates toolName actions outcome =
     map (toolActionStepUpdate toolName) actions
     @ (case outcome of
          Inl e \<Rightarrow> []
        | Inr result \<Rightarrow> if result \<noteq> JUndefined then [resultStepUpdate toolName result] else [])"

text \<open>
  The invariant of the pending-request map. Armed timers have positive handles below the
  next handle and are not overdue; a pending request owns an armed timer that will reject
  it, and every such timer belongs to a pending request; no id is settled twice, a settled
  id is not pending, and the ids that are pending or settled are exactly the ids created
  so far; the handle kept for the retry timer is never the timer of a request.
\<close>

definition pendingOf :: "bridge \<Rightarrow> string \<Rightarrow> nat option" where
  "pendingOf b = map_of (pendingRequests b)"

definition timerOf :: "bridge \<Rightarrow> nat \<Rightarrow> (nat \<times> timerAction) option" where
  "timerOf b = map_of (timers b)"

definition settledIds :: "bridge \<Rightarrow> string set" where
  "settledIds b = fst ` set (settled b)"

definition core ::
  "bridge \<Rightarrow> (string \<times> nat) list \<times> nat \<times> (nat \<times> nat \<times> timerAction) list \<times> nat
             \<times> (string \<times> outcome) list \<times> nat \<times> nat option" where
  "core b = (pendingRequests b, nextRequestId b, timers b, nextTimer b, settled b, now b,
             initializeTimer b)"

definition bridgeInv :: "bridge \<Rightarrow> bool" where
  "bridgeInv b \<longleftrightarrow>
     (\<forall>h x. timerOf b h = Some x \<longrightarrow> 0 < h \<and> h < nextTimer b \<and> now b \<le> fst x)
     \<and> 0 < nextTimer b
     \<and> distinct (map fst (pendingRequests b))
     \<and> (\<forall>rid h. pendingOf b rid = Some h \<longrightarrow>
           (\<exists>due m. timerOf b h = Some (due, RequestTimeout rid m)))
     \<and> (\<forall>h due rid m. timerOf b h = Some (due, RequestTimeout rid m) \<longrightarrow> pendingOf b rid = Some h)
     \<and> distinct (map fst (settled b))
     \<and> (\<forall>rid \<in> settledIds b. pendingOf b rid = None)
     \<and> (\<forall>rid. (pendingOf b rid \<noteq> None \<or> rid \<in> settledIds b)
                 = (\<exists>k. 1 \<le> k \<and> k \<le> nextRequestId b \<and> rid = requestId k))
     \<and> (\<forall>t. initializeTimer b = Some t \<longrightarrow>
               t < nextTimer b \<and> (\<forall>due rid m. timerOf b t \<noteq> Some (due, RequestTimeout rid m)))"

text \<open>
  How the pending requests of a bridge fare from one state to a later one: what is
  settled stays settled, and a pending request with its armed timer is either still
  pending with the same timer or settled.
\<close>

definition evolves :: "bridge \<Rightarrow> bridge \<Rightarrow> bool" where
  "evolves b b' \<longleftrightarrow>
     settledIds b \<subseteq> settledIds b'
     \<and> (\<forall>rid h x. pendingOf b rid = Some h \<and> timerOf b h = Some x \<longrightarrow>
            (pendingOf b' rid = Some h \<and> timerOf b' h = Some x) \<or> rid \<in> settledIds b')"


section \<open>Properties of the utilities\<close>

lemma parseMaybeJson_cases:
  "parseMaybeJson jp v =
     (case v of
        JUndefined \<Rightarrow> Inr JUndefined
      | JNull \<Rightarrow> Inr JUndefined
      | JStr s \<Rightarrow>
          if s = [] then Inr JUndefined
          else if trim s = [] then Inr (JStr s)
          else (case jp s of Inl e \<Rightarrow> Inr (JStr s) | Inr p \<Rightarrow> Inr p)
      | _ \<Rightarrow> Inr v)"
  by (cases v) (simp_all add: parseMaybeJson_def tryCatch_def)

lemma parseMaybeJson_returns: "\<exists>r. parseMaybeJson jp v = Inr r"
  by (cases v) (simp_all add: parseMaybeJson_cases split: sum.splits)

text \<open>
  C10. \<open>parseMaybeJson\<close> never throws, whatever the value and whatever \<open>JSON.parse\<close> does on
  it: it returns \<open>undefined\<close> for \<open>undefined\<close>, \<open>null\<close> and the empty string; the value
  itself for an object or an array; the parsed value for a string that \<open>JSON.parse\<close>
  accepts (such a string is not blank); and the string itself, unchanged, for a string
  that \<open>JSON.parse\<close> rejects.
\<close>

theorem parseMaybeJson_total:
  "(\<exists>r. parseMaybeJson jp v = Inr r)
   \<and> parseMaybeJson jp JUndefined = Inr JUndefined
   \<and> parseMaybeJson jp JNull = Inr JUndefined
   \<and> parseMaybeJson jp (JStr []) = Inr JUndefined
   \<and> parseMaybeJson jp (JObj kvs) = Inr (JObj kvs)
   \<and> parseMaybeJson jp (JArr xs) = Inr (JArr xs)
   \<and> (jp s = Inr p \<and> trim s \<noteq> [] \<longrightarrow> parseMaybeJson jp (JStr s) = Inr p)
   \<and> (jp s = Inl e \<longrightarrow> parseMaybeJson jp (JStr s) = (if s = [] then Inr JUndefined else Inr (JStr s)))"
  using parseMaybeJson_returns [of jp v]
  by (auto simp: parseMaybeJson_cases trim_def)

theorem parseMaybeJson_total_witness:
  "parseMaybeJson (\<lambda>s. if s = ''{}'' then Inr (JObj []) else Inl SyntaxError) (JStr ''{}'') = Inr (JObj [])
   \<and> parseMaybeJson (\<lambda>s. if s = ''{}'' then Inr (JObj []) else Inl SyntaxError) (JStr ''{a'') = Inr (JStr ''{a'')"
proof -
  let ?jp = "\<lambda>s. if s = ''{}'' then Inr (JObj []) else Inl SyntaxError"
  have t: "trim ''{}'' \<noteq> []" by (simp add: trim_def isWhiteSpace_def)
  have a: "?jp ''{}'' = Inr (JObj [])" by simp
  have b: "?jp ''{a'' = Inl SyntaxError" by simp
  from parseMaybeJson_total [of ?jp JUndefined "[]" "[]" "''{}''" "JObj []" SyntaxError]
  have "parseMaybeJson ?jp (JStr ''{}'') = Inr (JObj [])"
    using a t by blast
  moreover
  from parseMaybeJson_total [of ?jp JUndefined "[]" "[]" "''{a''" JNull SyntaxError]
  have "parseMaybeJson ?jp (JStr ''{a'') = Inr (JStr ''{a'')"
    using b by simp
  ultimately show ?thesis by blast
qed


section \<open>Resource URI templates\<close>





lemma parseRegex_group: "parseRegex (''(.+)'' @ t) = map_option (Cons RGroup) (parseRegex t)"
  by simp


















section \<open>The host bridge: tool notifications\<close>




lemma notificationKind_protocol:
  "notificationKind ''ui/notifications/tool-result'' = KResult"
  "notificationKind ''ui/notifications/tool-input-partial'' = KPartial"
  "notificationKind ''ui/notifications/tool-input'' = KInput"
  by (simp_all add: notificationKind_def)




section \<open>The host bridge: the \<open>initialized\<close> acknowledgment\<close>

lemma nonEmptyObject_conv:
  "(truthy a \<and> typeofObject a \<and> objectKeysLength a > 0) = nonEmptyObject a"
  by (cases a) auto

lemma sendHydrationData_posts:
  assumes "parseMaybeJson jp (toolArguments opts) = Inr args"
    and "parseMaybeJson jp (toolResult opts) = Inr result"
  shows "sendHydrationData jp opts b =
     Inr (if truthy (getProp (getProp (toolInfo opts) ''tool'') ''name'') \<and> contentWindow b
          then b\<lparr>posted := posted b @
                   specHydration (getProp (getProp (toolInfo opts) ''tool'') ''name'')
                     args result (isComplete opts)\<rparr>
          else b)"
  using assms
  by (simp add: sendHydrationData_def Let_def nonEmptyObject_conv specHydration_def postMessage_def)

lemma isInitialized_dispatch:
  assumes "isInitialized data"
  shows "handleMessage jp opts data b = handleInitialized jp opts b"
proof -
  from assms obtain kvs where d: "data = JObj kvs"
    by (cases data) (auto simp: isInitialized_def)
  with assms have m: "map_of kvs ''method'' = Some (JStr ''ui/notifications/initialized'')"
    and j: "getProp data ''jsonrpc'' = JStr ''2.0''"
    by (auto simp: isInitialized_def split: option.splits)
  from d m have "hasKey data ''method''" "getProp data ''method'' = JStr ''ui/notifications/initialized''"
    by simp_all
  with j d show ?thesis by (simp add: handleMessage_def Let_def)
qed

lemma cancelInitializeTimer_fields:
  "initializeTimer (cancelInitializeTimer b) = None"
  "posted (cancelInitializeTimer b) = posted b"
  "pendingNotifications (cancelInitializeTimer b) = pendingNotifications b"
  "contentWindow (cancelInitializeTimer b) = contentWindow b"
  "iframeStateRef (cancelInitializeTimer b) = iframeStateRef b"
  "pendingRequests (cancelInitializeTimer b) = pendingRequests b"
  "settled (cancelInitializeTimer b) = settled b"
  "initializeTimer b = Some t \<Longrightarrow> t \<notin> fst ` set (timers (cancelInitializeTimer b))"
  by (auto simp: cancelInitializeTimer_def clearTimeout_def split: option.splits)

lemma handleInitialized_effect:
  assumes "parseMaybeJson jp (toolArguments opts) = Inr args"
    and "parseMaybeJson jp (toolResult opts) = Inr result"
    and "contentWindow b"
  shows "posted (handleInitialized jp opts b) =
           posted b
           @ (if truthy (getProp (getProp (toolInfo opts) ''tool'') ''name'')
              then specHydration (getProp (getProp (toolInfo opts) ''tool'') ''name'')
                     args result (isComplete opts)
              else [])
           @ map queuedMessage (pendingNotifications b)"
    and "pendingNotifications (handleInitialized jp opts b) = []"
    and "iframeState (handleInitialized jp opts b) = Ready"
    and "initializeTimer (handleInitialized jp opts b) = None"
    and "contentWindow (handleInitialized jp opts b)"
    and "iframeStateRef (handleInitialized jp opts b) = iframeStateRef b"
    and "initializeTimer b = Some t \<Longrightarrow> t \<notin> fst ` set (timers (handleInitialized jp opts b))"
proof -
  have q: "(\<lambda>(method, params). rpcNotification (JStr method) params) = queuedMessage"
    by (auto simp: queuedMessage_def)
  let ?b2 = "(cancelInitializeTimer b)\<lparr>iframeState := Ready\<rparr>"
  have h: "handleInitialized jp opts b =
     replayQueuedNotifications
       (if truthy (getProp (getProp (toolInfo opts) ''tool'') ''name'')
        then ?b2\<lparr>posted := posted ?b2 @
                   specHydration (getProp (getProp (toolInfo opts) ''tool'') ''name'')
                     args result (isComplete opts)\<rparr>
        else ?b2)"
    using assms(3)
    by (simp add: handleInitialized_def Let_def sendHydrationData_posts [OF assms(1,2)]
                  cancelInitializeTimer_fields)
  show "posted (handleInitialized jp opts b) =
           posted b
           @ (if truthy (getProp (getProp (toolInfo opts) ''tool'') ''name'')
              then specHydration (getProp (getProp (toolInfo opts) ''tool'') ''name'')
                     args result (isComplete opts)
              else [])
           @ map queuedMessage (pendingNotifications b)"
    using assms(3) by (simp add: h replayQueuedNotifications_def q cancelInitializeTimer_fields)
  show "pendingNotifications (handleInitialized jp opts b) = []"
    using assms(3) by (simp add: h replayQueuedNotifications_def cancelInitializeTimer_fields)
  show "iframeState (handleInitialized jp opts b) = Ready"
    by (simp add: h replayQueuedNotifications_def)
  show "initializeTimer (handleInitialized jp opts b) = None"
    by (simp add: h replayQueuedNotifications_def cancelInitializeTimer_fields)
  show "contentWindow (handleInitialized jp opts b)"
    using assms(3) by (simp add: h replayQueuedNotifications_def cancelInitializeTimer_fields)
  show "iframeStateRef (handleInitialized jp opts b) = iframeStateRef b"
    by (simp add: h replayQueuedNotifications_def cancelInitializeTimer_fields)
  show "initializeTimer b = Some t \<Longrightarrow> t \<notin> fst ` set (timers (handleInitialized jp opts b))"
    using cancelInitializeTimer_fields(8) [of b t]
    by (simp add: h replayQueuedNotifications_def)
qed

text \<open>
  C3. When the \<open>initialized\<close> acknowledgment arrives (in any state, so also while
  initializing), the bridge cancels the retry timer, becomes ready and, given its iframe
  window and tool info with a name, posts the hydration notifications and then the queued
  notifications: one \<open>tool-input\<close> when the parsed arguments are a non-empty object; then
  one \<open>tool-result\<close> with the recorded result when there is one, else one synthetic
  \<open>tool-result\<close> with \<open>{completed: true}\<close> when \<open>isComplete\<close> holds, else no \<open>tool-result\<close>.
  Without a tool name, hydration posts nothing.
\<close>

theorem initialized_sends_hydration:
  assumes "isInitialized data"
    and "contentWindow b"
    and "parseMaybeJson jp (toolArguments opts) = Inr args"
    and "parseMaybeJson jp (toolResult opts) = Inr result"
    and "toolName = getProp (getProp (toolInfo opts) ''tool'') ''name''"
    and "b' = handleMessage jp opts data b"
  shows "initializeTimer b' = None
       \<and> (\<forall>t. initializeTimer b = Some t \<longrightarrow> t \<notin> fst ` set (timers b'))
       \<and> iframeState b' = Ready
       \<and> (truthy toolName \<longrightarrow>
            posted b' = posted b
              @ (if nonEmptyObject args then [toolInputMessage toolName args] else [])
              @ (if result \<noteq> JUndefined \<and> result \<noteq> JStr [] then [toolResultMessage toolName result]
                 else if isComplete opts
                   then [toolResultMessage toolName (JObj [(''completed'', JBool True)])]
                 else [])
              @ map queuedMessage (pendingNotifications b))
       \<and> (\<not> truthy toolName \<longrightarrow>
            posted b' = posted b @ map queuedMessage (pendingNotifications b))"
proof -
  have b': "b' = handleInitialized jp opts b"
    using assms(1,6) by (simp add: isInitialized_dispatch)
  note e = handleInitialized_effect [OF assms(3,4,2)]
  show ?thesis
    using e(1,3,4) e(7) assms(5)
    by (auto simp: b' specHydration_def)
qed

theorem initialized_sends_hydration_witness:
  "(let opts = \<lparr> appId = ''app-1'', html = None,
                  toolInfo = JObj [(''tool'', JObj [(''name'', JStr ''search'')])],
                  toolArguments = JObj [(''q'', JStr ''x'')], toolResult = JUndefined,
                  persistedState = JUndefined, isComplete = True, hostContext = [],
                  hasOnToolCall = False \<rparr>;
        b = sendInitializeWithRetry opts
              (newBridge\<lparr>contentWindow := True, iframeState := Initializing,
                          iframeStateRef := Initializing\<rparr>);
        b' = handleMessage (\<lambda>s. Inl SyntaxError) opts
               (JObj [(''jsonrpc'', JStr ''2.0''), (''method'', JStr ''ui/notifications/initialized'')]) b
    in initializeTimer b = Some 2 \<and> initializeTimer b' = None
       \<and> 2 \<notin> fst ` set (timers b') \<and> iframeState b' = Ready
       \<and> posted b' = posted b
            @ [toolInputMessage (JStr ''search'') (JObj [(''q'', JStr ''x'')]),
               toolResultMessage (JStr ''search'') (JObj [(''completed'', JBool True)])])"
proof -
  let ?opts = "\<lparr> appId = ''app-1'', html = None,
                  toolInfo = JObj [(''tool'', JObj [(''name'', JStr ''search'')])],
                  toolArguments = JObj [(''q'', JStr ''x'')], toolResult = JUndefined,
                  persistedState = JUndefined, isComplete = True, hostContext = [],
                  hasOnToolCall = False \<rparr>"
  let ?b = "sendInitializeWithRetry ?opts
              (newBridge\<lparr>contentWindow := True, iframeState := Initializing,
                          iframeStateRef := Initializing\<rparr>)"
  let ?jp = "\<lambda>s::string. (Inl SyntaxError :: error + jsval)"
  let ?data = "JObj [(''jsonrpc'', JStr ''2.0''), (''method'', JStr ''ui/notifications/initialized'')]"
  have f: "contentWindow ?b" "initializeTimer ?b = Some 2" "pendingNotifications ?b = []"
    by (simp_all add: sendInitializeWithRetry_def attemptSend_def sendInitialize_def
          sendRequest_def setTimeout_def postMessage_def newBridge_def Let_def)
  have i: "isInitialized ?data" by (simp add: isInitialized_def)
  have p: "parseMaybeJson ?jp (toolArguments ?opts) = Inr (JObj [(''q'', JStr ''x'')])"
          "parseMaybeJson ?jp (toolResult ?opts) = Inr JUndefined"
    by (simp_all add: parseMaybeJson_cases)
  have n: "JStr ''search'' = getProp (getProp (toolInfo ?opts) ''tool'') ''name''" by simp
  from initialized_sends_hydration [OF i f(1) p n refl]
  show ?thesis using f by (simp add: Let_def)
qed

text \<open>
  C9. Whatever the state of the bridge, an \<open>initialized\<close> message posts the hydration
  notifications and flushes the queue. A second \<open>initialized\<close> message that arrives when
  the bridge is ready, before or after the render that follows the first, posts the
  hydration notifications once more.
\<close>

theorem initialized_hydrates_again:
  assumes "isInitialized data"
    and "contentWindow b"
    and "parseMaybeJson jp (toolArguments opts) = Inr args"
    and "parseMaybeJson jp (toolResult opts) = Inr result"
    and "toolName = getProp (getProp (toolInfo opts) ''tool'') ''name''"
    and "truthy toolName"
    and "b1 = handleMessage jp opts data b"
    and "b2 = handleMessage jp opts data (render b1)"
    and "b2' = handleMessage jp opts data b1"
  shows "posted b1 = posted b @ specHydration toolName args result (isComplete opts)
                     @ map queuedMessage (pendingNotifications b)
       \<and> iframeState b1 = Ready \<and> iframeStateRef (render b1) = Ready
       \<and> posted b2 = posted b1 @ specHydration toolName args result (isComplete opts)
       \<and> posted b2' = posted b1 @ specHydration toolName args result (isComplete opts)"
proof -
  have b1: "b1 = handleInitialized jp opts b"
    using assms(1,7) by (simp add: isInitialized_dispatch)
  note e1 = handleInitialized_effect [OF assms(3,4,2)]
  have w1: "contentWindow b1" "contentWindow (render b1)"
    using e1(5) by (simp_all add: b1 render_def)
  have q1: "pendingNotifications b1 = []" "pendingNotifications (render b1) = []"
    using e1(2) by (simp_all add: b1 render_def)
  have b2: "b2 = handleInitialized jp opts (render b1)"
    using assms(1,8) by (simp add: isInitialized_dispatch)
  have b2': "b2' = handleInitialized jp opts b1"
    using assms(1,9) by (simp add: isInitialized_dispatch)
  note e2 = handleInitialized_effect [OF assms(3,4) w1(2)]
  note e2' = handleInitialized_effect [OF assms(3,4) w1(1)]
  have "posted b2 = posted (render b1) @ specHydration toolName args result (isComplete opts)"
    using e2(1) assms(5,6) q1 by (simp add: b2)
  moreover have "posted b2' = posted b1 @ specHydration toolName args result (isComplete opts)"
    using e2'(1) assms(5,6) q1 by (simp add: b2')
  moreover have "posted b1 = posted b @ specHydration toolName args result (isComplete opts)
                     @ map queuedMessage (pendingNotifications b)"
    using e1(1) assms(5,6) by (simp add: b1)
  moreover have "iframeState b1 = Ready" using e1(3) by (simp add: b1)
  ultimately show ?thesis by (simp add: render_def)
qed

theorem initialized_hydrates_again_witness:
  "(let opts = \<lparr> appId = ''app-1'', html = None,
                  toolInfo = JObj [(''tool'', JObj [(''name'', JStr ''search'')])],
                  toolArguments = JObj [(''q'', JStr ''x'')], toolResult = JStr ''done'',
                  persistedState = JUndefined, isComplete = False, hostContext = [],
                  hasOnToolCall = False \<rparr>;
        jp = (\<lambda>s. Inl SyntaxError);
        ack = JObj [(''jsonrpc'', JStr ''2.0''), (''method'', JStr ''ui/notifications/initialized'')];
        b = newBridge\<lparr>contentWindow := True, iframeState := Ready, iframeStateRef := Ready\<rparr>;
        b1 = handleMessage jp opts ack b;
        b2 = handleMessage jp opts ack (render b1)
    in posted b2 =
         [toolInputMessage (JStr ''search'') (JObj [(''q'', JStr ''x'')]),
          toolResultMessage (JStr ''search'') (JStr ''done''),
          toolInputMessage (JStr ''search'') (JObj [(''q'', JStr ''x'')]),
          toolResultMessage (JStr ''search'') (JStr ''done'')])"
proof -
  let ?opts = "\<lparr> appId = ''app-1'', html = None,
                  toolInfo = JObj [(''tool'', JObj [(''name'', JStr ''search'')])],
                  toolArguments = JObj [(''q'', JStr ''x'')], toolResult = JStr ''done'',
                  persistedState = JUndefined, isComplete = False, hostContext = [],
                  hasOnToolCall = False \<rparr>"
  let ?jp = "\<lambda>s::string. (Inl SyntaxError :: error + jsval)"
  let ?ack = "JObj [(''jsonrpc'', JStr ''2.0''), (''method'', JStr ''ui/notifications/initialized'')]"
  let ?b = "newBridge\<lparr>contentWindow := True, iframeState := Ready, iframeStateRef := Ready\<rparr>"
  have i: "isInitialized ?ack" by (simp add: isInitialized_def)
  have w: "contentWindow ?b" by simp
  have p: "parseMaybeJson ?jp (toolArguments ?opts) = Inr (JObj [(''q'', JStr ''x'')])"
          "parseMaybeJson ?jp (toolResult ?opts) = Inr (JStr ''done'')"
    by (simp_all add: parseMaybeJson_cases trim_def isWhiteSpace_def)
  have n: "JStr ''search'' = getProp (getProp (toolInfo ?opts) ''tool'') ''name''"
          "truthy (JStr ''search'')" by simp_all
  have f: "posted ?b = []" "pendingNotifications ?b = []" by (simp_all add: newBridge_def)
  from initialized_hydrates_again [OF i w p n refl refl refl]
  show ?thesis using f by (simp add: Let_def specHydration_def)
qed


section \<open>The provider: queues of notifications\<close>

lemma sendToolNotificationToApp_unregistered:
  assumes "map_of (toolNotificationSenders p) app = None"
  shows "queueOf (sendToolNotificationToApp app m ps p) app = queueOf p app @ [(m, ps)]"
    and "calls (sendToolNotificationToApp app m ps p) = calls p"
    and "toolNotificationSenders (sendToolNotificationToApp app m ps p) = toolNotificationSenders p"
    and "pendingBroadcastNotifications (sendToolNotificationToApp app m ps p)
           = pendingBroadcastNotifications p"
  using assms by (simp_all add: sendToolNotificationToApp_def queueOf_def)

lemma enqueueAll_unregistered:
  assumes "map_of (toolNotificationSenders p) app = None"
  shows "queueOf (enqueueAll app ns p) app = queueOf p app @ ns
       \<and> calls (enqueueAll app ns p) = calls p
       \<and> toolNotificationSenders (enqueueAll app ns p) = toolNotificationSenders p
       \<and> pendingBroadcastNotifications (enqueueAll app ns p) = pendingBroadcastNotifications p"
  using assms
proof (induction ns arbitrary: p)
  case Nil
  show ?case by (simp add: enqueueAll_def)
next
  case (Cons n ns)
  let ?p = "sendToolNotificationToApp app (fst n) (snd n) p"
  have u: "map_of (toolNotificationSenders ?p) app = None"
    using Cons.prems by (simp add: sendToolNotificationToApp_unregistered)
  have e: "enqueueAll app (n # ns) p = enqueueAll app ns ?p" by (simp add: enqueueAll_def)
  show ?case
    using Cons.IH [OF u] sendToolNotificationToApp_unregistered [OF Cons.prems, of "fst n" "snd n"]
    by (simp add: e)
qed

lemma deliveries_tuple:
  "map (\<lambda>(method, params). SenderCall sender method params) ns = deliveries sender ns"
  by (simp add: deliveries_def split_def)

lemma deliveries_triple:
  "map (\<lambda>(method, params, toolName). SenderCall sender method params) bs
     = deliveries sender (map (\<lambda>b. (fst b, fst (snd b))) bs)"
  by (simp add: deliveries_def split_def)

lemma replayPendingForApp_effect:
  "calls (replayPendingForApp app sender p) = calls p @ deliveries sender (queueOf p app)"
  "queueOf (replayPendingForApp app sender p) app = []"
  "pendingBroadcastNotifications (replayPendingForApp app sender p) = pendingBroadcastNotifications p"
  "toolNotificationSenders (replayPendingForApp app sender p) = toolNotificationSenders p"
  "app' \<noteq> app \<Longrightarrow> queueOf (replayPendingForApp app sender p) app' = queueOf p app'"
  by (auto simp: replayPendingForApp_def queueOf_def deliveries_tuple deliveries_def
           split: option.splits)

lemma replayPendingBroadcasts_effect:
  "calls (replayPendingBroadcasts sender p)
     = calls p @ deliveries sender (map (\<lambda>b. (fst b, fst (snd b))) (pendingBroadcastNotifications p))"
  "pendingBroadcastNotifications (replayPendingBroadcasts sender p) = []"
  "queueOf (replayPendingBroadcasts sender p) app = queueOf p app"
  "toolNotificationSenders (replayPendingBroadcasts sender p) = toolNotificationSenders p"
  by (auto simp: replayPendingBroadcasts_def queueOf_def deliveries_triple deliveries_def)

lemma queueOf_senders_update:
  "queueOf (p\<lparr>toolNotificationSenders := x\<rparr>) app = queueOf p app"
  by (simp add: queueOf_def)

lemma registerToolNotificationSender_effect:
  "calls (registerToolNotificationSender app sender p)
     = calls p @ deliveries sender (queueOf p app)
       @ deliveries sender (map (\<lambda>b. (fst b, fst (snd b))) (pendingBroadcastNotifications p))"
  "queueOf (registerToolNotificationSender app sender p) app = []"
  "pendingBroadcastNotifications (registerToolNotificationSender app sender p) = []"
  "map_of (toolNotificationSenders (registerToolNotificationSender app sender p)) app = Some sender"
  "app' \<noteq> app \<Longrightarrow> queueOf (registerToolNotificationSender app sender p) app' = queueOf p app'"
  by (simp_all add: registerToolNotificationSender_def replayPendingBroadcasts_effect
        replayPendingForApp_effect queueOf_senders_update update_conv')

lemma broadcastToolNotification_unregistered:
  assumes "toolNotificationSenders p = []"
  shows "map (\<lambda>b. (fst b, fst (snd b)))
           (pendingBroadcastNotifications (broadcastToolNotification m ps tn p))
         = map (\<lambda>b. (fst b, fst (snd b))) (pendingBroadcastNotifications p) @ [(m, ps)]"
    and "calls (broadcastToolNotification m ps tn p) = calls p"
    and "toolNotificationSenders (broadcastToolNotification m ps tn p) = []"
    and "queueOf (broadcastToolNotification m ps tn p) app = queueOf p app"
  using assms by (simp_all add: broadcastToolNotification_def queueOf_def)

lemma broadcastAll_unregistered:
  assumes "toolNotificationSenders p = []"
  shows "map (\<lambda>b. (fst b, fst (snd b))) (pendingBroadcastNotifications (broadcastAll ns p))
           = map (\<lambda>b. (fst b, fst (snd b))) (pendingBroadcastNotifications p) @ ns
       \<and> calls (broadcastAll ns p) = calls p
       \<and> toolNotificationSenders (broadcastAll ns p) = []
       \<and> queueOf (broadcastAll ns p) app = queueOf p app"
  using assms
proof (induction ns arbitrary: p)
  case Nil
  then show ?case by (simp add: broadcastAll_def)
next
  case (Cons n ns)
  let ?p = "broadcastToolNotification (fst n) (snd n) None p"
  have u: "toolNotificationSenders ?p = []"
    using Cons.prems by (simp add: broadcastToolNotification_unregistered)
  have e: "broadcastAll (n # ns) p = broadcastAll ns ?p" by (simp add: broadcastAll_def)
  show ?case
    using Cons.IH [OF u] broadcastToolNotification_unregistered [OF Cons.prems, of "fst n" "snd n" None]
    by (simp add: e)
qed

text \<open>
  C2. Broadcast notifications sent while no app is registered are queued and nothing is
  called. The first app that registers next receives all of them, in order, after its own
  queue, and the broadcast queue is then empty; an app that registers after it receives
  its own queue only, and nothing of the broadcasts.
\<close>

theorem broadcast_consumed_once:
  assumes "toolNotificationSenders p = []"
    and "pendingBroadcastNotifications p = []"
    and "p1 = broadcastAll ns p"
    and "p2 = registerToolNotificationSender first sender1 p1"
    and "p3 = registerToolNotificationSender second sender2 p2"
    and "second \<noteq> first"
  shows "calls p1 = calls p
       \<and> map (\<lambda>b. (fst b, fst (snd b))) (pendingBroadcastNotifications p1) = ns
       \<and> calls p2 = calls p @ deliveries sender1 (queueOf p first) @ deliveries sender1 ns
       \<and> pendingBroadcastNotifications p2 = []
       \<and> calls p3 = calls p2 @ deliveries sender2 (queueOf p second)
       \<and> pendingBroadcastNotifications p3 = []"
proof -
  note b = broadcastAll_unregistered [OF assms(1), of ns]
  have q1: "queueOf p1 first = queueOf p first" "queueOf p1 second = queueOf p second"
    using b by (simp_all add: assms(3))
  have bs: "map (\<lambda>b. (fst b, fst (snd b))) (pendingBroadcastNotifications p1) = ns"
    using b [of first] by (simp add: assms(2,3))
  have c1: "calls p1 = calls p" using b [of first] by (simp add: assms(3))
  have c2: "calls p2 = calls p @ deliveries sender1 (queueOf p first) @ deliveries sender1 ns"
    by (simp add: assms(4) registerToolNotificationSender_effect(1) q1 bs c1)
  have e2: "pendingBroadcastNotifications p2 = []"
    by (simp add: assms(4) registerToolNotificationSender_effect(3))
  have q2: "queueOf p2 second = queueOf p second"
    using assms(6) by (simp add: assms(4) registerToolNotificationSender_effect(5) q1)
  have c3: "calls p3 = calls p2 @ deliveries sender2 (queueOf p second)"
    by (simp add: assms(5) registerToolNotificationSender_effect(1) q2 e2 deliveries_def)
  have e3: "pendingBroadcastNotifications p3 = []"
    by (simp add: assms(5) registerToolNotificationSender_effect(3))
  from c1 bs c2 e2 c3 e3 show ?thesis by blast
qed

theorem broadcast_consumed_once_witness:
  "(let p = (newProvider None :: (nat, nat) provider);
        p1 = broadcastAll [(''ui/notifications/tool-input'', JObj [(''n'', JNum 1)]),
                           (''ui/notifications/tool-result'', JObj [(''n'', JNum 2)])] p;
        p2 = registerToolNotificationSender ''A'' 1 p1;
        p3 = registerToolNotificationSender ''B'' 2 p2
    in calls p1 = []
       \<and> calls p2 = [SenderCall 1 ''ui/notifications/tool-input'' (JObj [(''n'', JNum 1)]),
                     SenderCall 1 ''ui/notifications/tool-result'' (JObj [(''n'', JNum 2)])]
       \<and> calls p3 = calls p2)"
proof -
  let ?p = "newProvider None :: (nat, nat) provider"
  let ?ns = "[(''ui/notifications/tool-input'', JObj [(''n'', JNum 1)]),
              (''ui/notifications/tool-result'', JObj [(''n'', JNum 2)])]"
  have a: "toolNotificationSenders ?p = []" "pendingBroadcastNotifications ?p = []"
    by (simp_all add: newProvider_def)
  have d: "''B'' \<noteq> ''A''" by simp
  have q: "queueOf ?p ''A'' = []" "queueOf ?p ''B'' = []" "calls ?p = []"
    by (simp_all add: newProvider_def queueOf_def)
  from broadcast_consumed_once [OF a refl refl refl d, of ?ns 1 2]
  show ?thesis using q by (simp add: Let_def deliveries_def)
qed


section \<open>Queued notifications are replayed in order, once\<close>

lemma notifyAll_queued:
  assumes "\<forall>n \<in> set ns. validateToolParams (snd n) (notificationKind (fst n))"
    and "iframeStateRef b \<noteq> Ready"
  shows "notifyAll ns b = b\<lparr>pendingNotifications := pendingNotifications b @ ns\<rparr>"
  using assms
proof (induction ns arbitrary: b)
  case Nil
  show ?case by (simp add: notifyAll_def)
next
  case (Cons n ns)
  let ?b = "b\<lparr>pendingNotifications := pendingNotifications b @ [n]\<rparr>"
  have s: "sendToolNotification (fst n) (snd n) b = ?b"
    using Cons.prems by (simp add: sendToolNotification_def)
  have "notifyAll (n # ns) b = notifyAll ns ?b" by (simp add: notifyAll_def s)
  also have "\<dots> = ?b\<lparr>pendingNotifications := pendingNotifications ?b @ ns\<rparr>"
    using Cons.prems by (intro Cons.IH) simp_all
  finally show ?case by simp
qed

text \<open>
  C1. Notifications sent to an app that has not registered a sender are queued, and
  nothing is called. Registering the app calls its sender with what was already queued
  and then the new notifications, in the order they were sent (and then with the queued
  broadcasts); the queue of the app is then empty, and registering again calls the new
  sender with nothing. In the bridge, valid notifications sent before the bridge is ready
  are queued; the \<open>initialized\<close> acknowledgment posts them to the iframe window in the
  order they were sent, after the hydration notifications, and empties the queue, so that
  a further acknowledgment posts none of them.
\<close>

theorem queued_notifications_replayed_in_order_once:
  assumes "map_of (toolNotificationSenders p) app = None"
    and "p1 = enqueueAll app ns p"
    and "p2 = registerToolNotificationSender app sender p1"
    and "p3 = registerToolNotificationSender app sender' p2"
    and "\<forall>n \<in> set ms. validateToolParams (snd n) (notificationKind (fst n))"
    and "iframeStateRef b \<noteq> Ready"
    and "contentWindow b"
    and "b1 = notifyAll ms b"
    and "isInitialized data"
    and "parseMaybeJson jp (toolArguments opts) = Inr args"
    and "parseMaybeJson jp (toolResult opts) = Inr result"
    and "hydration = (if truthy (getProp (getProp (toolInfo opts) ''tool'') ''name'')
                      then specHydration (getProp (getProp (toolInfo opts) ''tool'') ''name'')
                             args result (isComplete opts)
                      else [])"
    and "b2 = handleMessage jp opts data b1"
    and "b3 = handleMessage jp opts data b2"
  shows "calls p1 = calls p
       \<and> queueOf p1 app = queueOf p app @ ns
       \<and> calls p2 = calls p @ deliveries sender (queueOf p app @ ns)
            @ deliveries sender (map (\<lambda>b. (fst b, fst (snd b))) (pendingBroadcastNotifications p))
       \<and> queueOf p2 app = []
       \<and> calls p3 = calls p2
       \<and> posted b1 = posted b
       \<and> pendingNotifications b1 = pendingNotifications b @ ms
       \<and> posted b2 = posted b @ hydration @ map queuedMessage (pendingNotifications b @ ms)
       \<and> pendingNotifications b2 = []
       \<and> posted b3 = posted b2 @ hydration"
proof -
  note e = enqueueAll_unregistered [OF assms(1), of ns]
  have p1: "calls p1 = calls p" "queueOf p1 app = queueOf p app @ ns"
    "pendingBroadcastNotifications p1 = pendingBroadcastNotifications p"
    using e by (simp_all add: assms(2))
  have p2: "calls p2 = calls p @ deliveries sender (queueOf p app @ ns)
            @ deliveries sender (map (\<lambda>b. (fst b, fst (snd b))) (pendingBroadcastNotifications p))"
    "queueOf p2 app = []" "pendingBroadcastNotifications p2 = []"
    by (simp_all add: assms(3) registerToolNotificationSender_effect p1)
  have p3: "calls p3 = calls p2"
    by (simp add: assms(4) registerToolNotificationSender_effect p2 deliveries_def)
  have b1: "b1 = b\<lparr>pendingNotifications := pendingNotifications b @ ms\<rparr>"
    using notifyAll_queued [OF assms(5,6)] by (simp add: assms(8))
  have w1: "contentWindow b1" using assms(7) by (simp add: b1)
  have b2: "b2 = handleInitialized jp opts b1"
    using assms(9,13) by (simp add: isInitialized_dispatch)
  note h2 = handleInitialized_effect [OF assms(10,11) w1]
  have b3: "b3 = handleInitialized jp opts b2"
    using assms(9,14) by (simp add: isInitialized_dispatch)
  have w2: "contentWindow b2" using h2(5) by (simp add: b2)
  note h3 = handleInitialized_effect [OF assms(10,11) w2]
  have r2: "posted b2 = posted b @ hydration @ map queuedMessage (pendingNotifications b @ ms)"
    using h2(1) by (simp add: b2 assms(12)) (simp add: b1)
  have e2: "pendingNotifications b2 = []" using h2(2) by (simp add: b2)
  have r3: "posted b3 = posted b2 @ hydration"
    using h3(1) e2 by (simp add: b3 assms(12))
  from p1 p2 p3 r2 e2 r3 show ?thesis by (simp add: b1)
qed

theorem queued_notifications_replayed_in_order_once_witness:
  "(let n1 = (''ui/notifications/tool-input-partial'', JObj [(''arguments'', JObj [(''q'', JStr ''a'')])]);
        n2 = (''ui/notifications/tool-input'', JObj [(''arguments'', JObj [(''q'', JStr ''ab'')])]);
        n3 = (''ui/notifications/tool-result'', JObj [(''result'', JStr ''ok'')]);
        p = (newProvider None :: (nat, nat) provider);
        p2 = registerToolNotificationSender ''A'' 7 (enqueueAll ''A'' [n1, n2, n3] p);
        p3 = registerToolNotificationSender ''A'' 8 p2;
        opts = \<lparr> appId = ''A'', html = None, toolInfo = JUndefined, toolArguments = JUndefined,
                 toolResult = JUndefined, persistedState = JUndefined, isComplete = False,
                 hostContext = [], hasOnToolCall = False \<rparr>;
        jp = (\<lambda>s. Inl SyntaxError);
        ack = JObj [(''jsonrpc'', JStr ''2.0''), (''method'', JStr ''ui/notifications/initialized'')];
        b = newBridge\<lparr>contentWindow := True, iframeState := Initializing,
                       iframeStateRef := Initializing\<rparr>;
        b2 = handleMessage jp opts ack (notifyAll [n1, n2, n3] b);
        b3 = handleMessage jp opts ack b2
    in calls p2 = [SenderCall 7 (fst n1) (snd n1), SenderCall 7 (fst n2) (snd n2),
                   SenderCall 7 (fst n3) (snd n3)]
       \<and> queueOf p2 ''A'' = [] \<and> calls p3 = calls p2
       \<and> posted b2 = [queuedMessage n1, queuedMessage n2, queuedMessage n3]
       \<and> pendingNotifications b2 = [] \<and> posted b3 = posted b2)"
proof -
  let ?n1 = "(''ui/notifications/tool-input-partial'', JObj [(''arguments'', JObj [(''q'', JStr ''a'')])])"
  let ?n2 = "(''ui/notifications/tool-input'', JObj [(''arguments'', JObj [(''q'', JStr ''ab'')])])"
  let ?n3 = "(''ui/notifications/tool-result'', JObj [(''result'', JStr ''ok'')])"
  let ?p = "newProvider None :: (nat, nat) provider"
  let ?opts = "\<lparr> appId = ''A'', html = None, toolInfo = JUndefined, toolArguments = JUndefined,
                 toolResult = JUndefined, persistedState = JUndefined, isComplete = False,
                 hostContext = [], hasOnToolCall = False \<rparr>"
  let ?jp = "\<lambda>s::string. (Inl SyntaxError :: error + jsval)"
  let ?ack = "JObj [(''jsonrpc'', JStr ''2.0''), (''method'', JStr ''ui/notifications/initialized'')]"
  let ?b = "newBridge\<lparr>contentWindow := True, iframeState := Initializing,
                       iframeStateRef := Initializing\<rparr>"
  have a1: "map_of (toolNotificationSenders ?p) ''A'' = None" by (simp add: newProvider_def)
  have a5: "\<forall>n \<in> set [?n1, ?n2, ?n3]. validateToolParams (snd n) (notificationKind (fst n))"
    by (simp add: notificationKind_protocol validateToolParams_def Let_def)
  have a6: "iframeStateRef ?b \<noteq> Ready" "contentWindow ?b" by simp_all
  have a9: "isInitialized ?ack" by (simp add: isInitialized_def)
  have a10: "parseMaybeJson ?jp (toolArguments ?opts) = Inr JUndefined"
            "parseMaybeJson ?jp (toolResult ?opts) = Inr JUndefined"
    by (simp_all add: parseMaybeJson_cases)
  have a12: "[] = (if truthy (getProp (getProp (toolInfo ?opts) ''tool'') ''name'')
                      then specHydration (getProp (getProp (toolInfo ?opts) ''tool'') ''name'')
                             JUndefined JUndefined (isComplete ?opts)
                      else [])" by simp
  have f: "calls ?p = []" "queueOf ?p ''A'' = []" "pendingBroadcastNotifications ?p = []"
          "posted ?b = []" "pendingNotifications ?b = []"
    by (simp_all add: newProvider_def queueOf_def newBridge_def)
  from queued_notifications_replayed_in_order_once
         [OF a1 refl refl refl a5 a6 refl a9 a10 a12 refl refl, where sender = 7 and sender' = 8]
  show ?thesis using f by (simp add: Let_def deliveries_def)
qed


section \<open>The cache of app data\<close>







section \<open>The provider: the target app of a tool call\<close>

lemma deliverStepUpdate_registered:
  assumes "truthyStr r" and "map_of (stepUpdateCallbacks p) (the r) = Some cb"
  shows "deliverStepUpdate r u p = p\<lparr>calls := calls p @ [CallbackCall cb u]\<rparr>"
  using assms by (simp add: deliverStepUpdate_def)

lemma deliverAll_registered:
  assumes "truthyStr r" and "map_of (stepUpdateCallbacks p) (the r) = Some cb"
  shows "fold (deliverStepUpdate r) us p = p\<lparr>calls := calls p @ map (CallbackCall cb) us\<rparr>"
  using assms
proof (induction us arbitrary: p)
  case Nil
  show ?case by simp
next
  case (Cons u us)
  let ?p = "p\<lparr>calls := calls p @ [CallbackCall cb u]\<rparr>"
  have "fold (deliverStepUpdate r) (u # us) p = fold (deliverStepUpdate r) us ?p"
    using Cons.prems by (simp add: deliverStepUpdate_registered)
  also have "\<dots> = ?p\<lparr>calls := calls ?p @ map (CallbackCall cb) us\<rparr>"
    using Cons.prems by (intro Cons.IH) simp_all
  finally show ?case by simp
qed

lemma deliverAll_unregistered:
  assumes "truthyStr r" and "map_of (stepUpdateCallbacks p) (the r) = None"
  shows "calls (fold (deliverStepUpdate r) us p) = calls p
       \<and> stepUpdateCallbacks (fold (deliverStepUpdate r) us p) = stepUpdateCallbacks p
       \<and> (case pendingStepUpdates (fold (deliverStepUpdate r) us p) (the r) of
             None \<Rightarrow> [] | Some q \<Rightarrow> q)
           = (case pendingStepUpdates p (the r) of None \<Rightarrow> [] | Some q \<Rightarrow> q) @ us"
  using assms
proof (induction us arbitrary: p)
  case Nil
  show ?case by simp
next
  case (Cons u us)
  let ?p = "deliverStepUpdate r u p"
  have s: "calls ?p = calls p" "stepUpdateCallbacks ?p = stepUpdateCallbacks p"
    "(case pendingStepUpdates ?p (the r) of None \<Rightarrow> [] | Some q \<Rightarrow> q)
       = (case pendingStepUpdates p (the r) of None \<Rightarrow> [] | Some q \<Rightarrow> q) @ [u]"
    using Cons.prems by (simp_all add: deliverStepUpdate_def)
  have u: "map_of (stepUpdateCallbacks ?p) (the r) = None" using Cons.prems s(2) by simp
  show ?case using Cons.IH [OF Cons.prems(1) u] s by simp
qed

lemma deliverAll_broadcast:
  assumes "\<not> truthyStr r"
  shows "calls (fold (deliverStepUpdate r) us p)
           = calls p @ concat (map (\<lambda>u. map (\<lambda>e. CallbackCall (snd e) u) (stepUpdateCallbacks p)) us)
       \<and> stepUpdateCallbacks (fold (deliverStepUpdate r) us p) = stepUpdateCallbacks p"
proof (induction us arbitrary: p)
  case Nil
  show ?case by simp
next
  case (Cons u us)
  let ?p = "deliverStepUpdate r u p"
  have s: "calls ?p = calls p @ map (\<lambda>e. CallbackCall (snd e) u) (stepUpdateCallbacks p)"
    "stepUpdateCallbacks ?p = stepUpdateCallbacks p"
    using assms by (simp_all add: deliverStepUpdate_def split_def)
  show ?case using Cons.IH [of ?p] s by simp
qed

lemma executeToolCall_delivers:
  assumes "modelContextRef p = Some contexts"
    and "findTool toolName contexts = Some (context, f)"
    and "f args = (actions, outcome)"
  shows "executeToolCall toolName args targetAppId p =
     (outcome,
      fold (deliverStepUpdate (resolveAppId targetAppId toolName context p))
        (toolStepUpdates toolName actions outcome)
        (if truthyStr (resolveAppId targetAppId toolName context p)
         then p\<lparr>toolArgumentsCache :=
                  (toolArgumentsCache p)
                    (toolName \<mapsto> args, the (resolveAppId targetAppId toolName context p) \<mapsto> args)\<rparr>
         else p\<lparr>toolArgumentsCache := (toolArgumentsCache p)(toolName \<mapsto> args)\<rparr>))"
proof -
  have m: "fold (\<lambda>a. deliverStepUpdate r (toolActionStepUpdate toolName a)) as q
             = fold (deliverStepUpdate r) (map (toolActionStepUpdate toolName) as) q" for r as q
    by (simp add: fold_map comp_def)
  show ?thesis
    using assms
    by (cases outcome) (simp_all add: executeToolCall_def Let_def m toolStepUpdates_def)
qed

lemma registerActiveApp_sets:
  assumes "stepCanvas rs = Some cv"
    and "truthyStr (orElse (stepToolName rs) (stepLabel rs))"
    and "truthyStr (canvasId cv)"
  shows "activeAppByTool (registerActiveApp rs p) (the (orElse (stepToolName rs) (stepLabel rs)))
           = canvasId cv"
    and "t \<noteq> the (orElse (stepToolName rs) (stepLabel rs)) \<Longrightarrow>
         activeAppByTool (registerActiveApp rs p) t = activeAppByTool p t"
  using assms by (auto simp: registerActiveApp_def Let_def truthyStr_def split: option.splits)

text \<open>
  C6. \<open>executeToolCall\<close> resolves the target app of a tool's notifications in this order:
  the app id given by the caller; else the app id that the latest step update with an app
  recorded for this exact tool name; else, when that is missing and the context of the
  tool has a name, the app id recorded for the tool name prefixed with the context name.
  With a target resolved, every step update of the call goes to the callback registered
  for that app and to no other (or is queued for it when no callback is registered);
  with none resolved, every step update goes to all registered callbacks.
\<close>

theorem executeToolCall_target_precedence:
  assumes "modelContextRef p = Some contexts"
    and "findTool toolName contexts = Some (context, f)"
    and "f args = (actions, outcome)"
    and "r = resolveAppId targetAppId toolName context p"
    and "p' = snd (executeToolCall toolName args targetAppId p)"
    and "updates = toolStepUpdates toolName actions outcome"
    and "stepCanvas rs = Some cv"
    and "truthyStr (orElse (stepToolName rs) (stepLabel rs))"
    and "truthyStr (canvasId cv)"
  shows "(truthyStr targetAppId \<longrightarrow> r = targetAppId)
       \<and> (\<not> truthyStr targetAppId \<and> truthyStr (activeAppByTool p toolName) \<longrightarrow>
            r = activeAppByTool p toolName)
       \<and> (\<not> truthyStr targetAppId \<and> \<not> truthyStr (activeAppByTool p toolName)
            \<and> truthyStr (ctxName context) \<longrightarrow>
            r = activeAppByTool p (the (ctxName context) @ ''_'' @ toolName))
       \<and> (\<not> truthyStr targetAppId \<and> \<not> truthyStr (activeAppByTool p toolName)
            \<and> \<not> truthyStr (ctxName context) \<longrightarrow> \<not> truthyStr r)
       \<and> activeAppByTool (registerActiveApp rs p) (the (orElse (stepToolName rs) (stepLabel rs)))
            = canvasId cv
       \<and> fst (executeToolCall toolName args targetAppId p) = outcome
       \<and> (truthyStr r \<longrightarrow>
            (\<forall>cb. map_of (stepUpdateCallbacks p) (the r) = Some cb \<longrightarrow>
                   calls p' = calls p @ map (CallbackCall cb) updates)
            \<and> (map_of (stepUpdateCallbacks p) (the r) = None \<longrightarrow>
                 calls p' = calls p
                 \<and> (case pendingStepUpdates p' (the r) of None \<Rightarrow> [] | Some q \<Rightarrow> q)
                     = (case pendingStepUpdates p (the r) of None \<Rightarrow> [] | Some q \<Rightarrow> q) @ updates))
       \<and> (\<not> truthyStr r \<longrightarrow>
            calls p' = calls p
              @ concat (map (\<lambda>u. map (\<lambda>e. CallbackCall (snd e) u) (stepUpdateCallbacks p)) updates))"
proof -
  let ?p0 = "if truthyStr r
         then p\<lparr>toolArgumentsCache := (toolArgumentsCache p)(toolName \<mapsto> args, the r \<mapsto> args)\<rparr>
         else p\<lparr>toolArgumentsCache := (toolArgumentsCache p)(toolName \<mapsto> args)\<rparr>"
  have e: "executeToolCall toolName args targetAppId p = (outcome, fold (deliverStepUpdate r) updates ?p0)"
    using executeToolCall_delivers [OF assms(1-3), of targetAppId] by (simp add: assms(4,6))
  have p': "p' = fold (deliverStepUpdate r) updates ?p0" by (simp add: assms(5) e)
  have f0: "calls ?p0 = calls p" "stepUpdateCallbacks ?p0 = stepUpdateCallbacks p"
    "pendingStepUpdates ?p0 = pendingStepUpdates p" by simp_all
  have res: "(truthyStr targetAppId \<longrightarrow> r = targetAppId)
       \<and> (\<not> truthyStr targetAppId \<and> truthyStr (activeAppByTool p toolName) \<longrightarrow>
            r = activeAppByTool p toolName)
       \<and> (\<not> truthyStr targetAppId \<and> \<not> truthyStr (activeAppByTool p toolName)
            \<and> truthyStr (ctxName context) \<longrightarrow>
            r = activeAppByTool p (the (ctxName context) @ ''_'' @ toolName))
       \<and> (\<not> truthyStr targetAppId \<and> \<not> truthyStr (activeAppByTool p toolName)
            \<and> \<not> truthyStr (ctxName context) \<longrightarrow> \<not> truthyStr r)"
    by (simp add: assms(4) resolveAppId_def Let_def)
  have reg: "truthyStr r \<longrightarrow>
            (\<forall>cb. map_of (stepUpdateCallbacks p) (the r) = Some cb \<longrightarrow>
                   calls p' = calls p @ map (CallbackCall cb) updates)"
  proof (intro impI allI)
    fix cb assume t: "truthyStr r" and c: "map_of (stepUpdateCallbacks p) (the r) = Some cb"
    from c f0(2) have "map_of (stepUpdateCallbacks ?p0) (the r) = Some cb" by simp
    from deliverAll_registered [OF t this, of updates]
    show "calls p' = calls p @ map (CallbackCall cb) updates"
      using f0(1) by (simp add: p')
  qed
  have unreg: "truthyStr r \<longrightarrow>
            (map_of (stepUpdateCallbacks p) (the r) = None \<longrightarrow>
                 calls p' = calls p
                 \<and> (case pendingStepUpdates p' (the r) of None \<Rightarrow> [] | Some q \<Rightarrow> q)
                     = (case pendingStepUpdates p (the r) of None \<Rightarrow> [] | Some q \<Rightarrow> q) @ updates)"
  proof (intro impI)
    assume t: "truthyStr r" and c: "map_of (stepUpdateCallbacks p) (the r) = None"
    from c f0(2) have "map_of (stepUpdateCallbacks ?p0) (the r) = None" by simp
    from deliverAll_unregistered [OF t this, of updates]
    show "calls p' = calls p
                 \<and> (case pendingStepUpdates p' (the r) of None \<Rightarrow> [] | Some q \<Rightarrow> q)
                     = (case pendingStepUpdates p (the r) of None \<Rightarrow> [] | Some q \<Rightarrow> q) @ updates"
      using f0(1,3) t by (simp add: p')
  qed
  have bc: "\<not> truthyStr r \<longrightarrow>
            calls p' = calls p
              @ concat (map (\<lambda>u. map (\<lambda>e. CallbackCall (snd e) u) (stepUpdateCallbacks p)) updates)"
  proof
    assume t: "\<not> truthyStr r"
    from deliverAll_broadcast [OF t, of updates ?p0]
    show "calls p' = calls p
              @ concat (map (\<lambda>u. map (\<lambda>e. CallbackCall (snd e) u) (stepUpdateCallbacks p)) updates)"
      using t by (simp add: p')
  qed
  have act: "activeAppByTool (registerActiveApp rs p) (the (orElse (stepToolName rs) (stepLabel rs)))
            = canvasId cv"
    by (rule registerActiveApp_sets(1) [OF assms(7-9)])
  have out: "fst (executeToolCall toolName args targetAppId p) = outcome" by (simp add: e)
  from res act out reg unreg bc show ?thesis by blast
qed

theorem executeToolCall_target_precedence_witness:
  "(let render = \<lparr> name = ''render'',
                   execute = Some (\<lambda>args. ([NotifyToolInputPartial (JObj [(''progress'', JNum 50)])],
                                            Inr (JObj [(''ok'', JBool True)]))) \<rparr>;
        p0 = registerStepUpdateCallback ''B'' 20
               (registerStepUpdateCallback ''A'' 10
                  (newProvider (Some [\<lparr> ctxName = Some ''demo'', tools = Some [render] \<rparr>])
                     :: (nat, nat) provider));
        p = registerActiveApp
              \<lparr> stepToolName = Some ''render'', stepLabel = None, stepId = Some ''s1'',
                stepCanvas = Some \<lparr> canvasId = Some ''A'' \<rparr> \<rparr> p0;
        p' = snd (executeToolCall ''render'' (JObj [(''x'', JNum 1)]) None p)
    in activeAppByTool p ''render'' = Some ''A''
       \<and> calls p' = [CallbackCall 10 (partialStepUpdate ''render'' (JObj [(''progress'', JNum 50)])),
                     CallbackCall 10 (resultStepUpdate ''render'' (JObj [(''ok'', JBool True)]))]
       \<and> (\<forall>u. CallbackCall 20 u \<notin> set (calls p')))"
proof -
  let ?f = "\<lambda>args::jsval. ([NotifyToolInputPartial (JObj [(''progress'', JNum 50)])],
                           (Inr (JObj [(''ok'', JBool True)]) :: error + jsval))"
  let ?render = "\<lparr> name = ''render'', execute = Some ?f \<rparr>"
  let ?ctx = "\<lparr> ctxName = Some ''demo'', tools = Some [?render] \<rparr>"
  let ?p0 = "registerStepUpdateCallback ''B'' 20
               (registerStepUpdateCallback ''A'' 10
                  (newProvider (Some [?ctx]) :: (nat, nat) provider))"
  let ?rs = "\<lparr> stepToolName = Some ''render'', stepLabel = None, stepId = Some ''s1'',
                stepCanvas = Some \<lparr> canvasId = Some ''A'' \<rparr> \<rparr>"
  let ?p = "registerActiveApp ?rs ?p0"
  have a1: "modelContextRef ?p = Some [?ctx]"
    by (simp add: registerActiveApp_def registerStepUpdateCallback_def newProvider_def Let_def
                  truthyStr_def orElse_def)
  have a2: "findTool ''render'' [?ctx] = Some (?ctx, ?f)" by simp
  have a3: "?f (JObj [(''x'', JNum 1)])
              = ([NotifyToolInputPartial (JObj [(''progress'', JNum 50)])], Inr (JObj [(''ok'', JBool True)]))"
    by simp
  have act: "activeAppByTool ?p ''render'' = Some ''A''"
    by (simp add: registerActiveApp_def registerStepUpdateCallback_def newProvider_def Let_def
                  truthyStr_def orElse_def)
  have r: "Some ''A'' = resolveAppId None ''render'' ?ctx ?p"
    by (simp add: resolveAppId_def act truthyStr_def Let_def)
  have cbs: "stepUpdateCallbacks ?p = [(''A'', 10), (''B'', 20)]" "calls ?p = []"
    by (simp_all add: registerActiveApp_def registerStepUpdateCallback_def newProvider_def Let_def
                  truthyStr_def orElse_def)
  have a7: "stepCanvas ?rs = Some \<lparr> canvasId = Some ''A'' \<rparr>"
    "truthyStr (orElse (stepToolName ?rs) (stepLabel ?rs))"
    "truthyStr (canvasId \<lparr> canvasId = Some ''A'' \<rparr>)"
    by (simp_all add: truthyStr_def orElse_def)
  have t: "truthyStr (Some ''A'')" by (simp add: truthyStr_def)
  have m: "map_of (stepUpdateCallbacks ?p) (the (Some ''A'')) = Some 10" by (simp add: cbs)
  from executeToolCall_target_precedence [OF a1 a2 a3 r refl refl a7] t m
  have c: "calls (snd (executeToolCall ''render'' (JObj [(''x'', JNum 1)]) None ?p))
             = calls ?p @ map (CallbackCall 10)
                 (toolStepUpdates ''render'' [NotifyToolInputPartial (JObj [(''progress'', JNum 50)])]
                    (Inr (JObj [(''ok'', JBool True)])))"
    by blast
  show ?thesis
    unfolding Let_def
    by (simp only: act c cbs) (auto simp: toolStepUpdates_def toolActionStepUpdate_def)
qed


section \<open>Request ids are never reused\<close>

lemma digitChar_inj:
  assumes "d < 10" "d' < 10" "digitChar d = digitChar d'"
  shows "d = d'"
proof -
  from assms(3) have "of_char (digitChar d) = (of_char (digitChar d') :: nat)" by simp
  then have "(48 + d) mod 256 = (48 + d') mod 256" by (simp add: digitChar_def)
  with assms(1,2) show ?thesis by simp
qed

lemma showNat_nonempty: "showNat n \<noteq> []"
  by (subst showNat.simps) simp

lemma showNat_inj: "showNat n = showNat m \<Longrightarrow> n = m"
proof (induction n arbitrary: m rule: showNat.induct)
  case (1 n)
  show ?case
  proof (cases "n < 10")
    case True
    then have n: "showNat n = [digitChar n]" by (subst showNat.simps) simp
    show ?thesis
    proof (cases "m < 10")
      case True
      then have "showNat m = [digitChar m]" by (subst showNat.simps) simp
      with n "1.prems" have "digitChar n = digitChar m" by simp
      with \<open>n < 10\<close> True show ?thesis by (rule digitChar_inj)
    next
      case False
      then have "showNat m = showNat (m div 10) @ [digitChar (m mod 10)]"
        by (subst showNat.simps) simp
      with n "1.prems" showNat_nonempty [of "m div 10"] show ?thesis by (cases "showNat (m div 10)") auto
    qed
  next
    case False
    then have n: "showNat n = showNat (n div 10) @ [digitChar (n mod 10)]"
      by (subst showNat.simps) simp
    show ?thesis
    proof (cases "m < 10")
      case True
      then have "showNat m = [digitChar m]" by (subst showNat.simps) simp
      with n "1.prems" showNat_nonempty [of "n div 10"] show ?thesis by (cases "showNat (n div 10)") auto
    next
      case m: False
      then have "showNat m = showNat (m div 10) @ [digitChar (m mod 10)]"
        by (subst showNat.simps) simp
      with n "1.prems" have a: "showNat (n div 10) = showNat (m div 10)"
        and b: "digitChar (n mod 10) = digitChar (m mod 10)" by simp_all
      from "1.IH" [OF False a] have "n div 10 = m div 10" .
      moreover from b have "n mod 10 = m mod 10" by (intro digitChar_inj) simp_all
      ultimately show ?thesis by (metis div_mult_mod_eq)
    qed
  qed
qed

lemma requestId_inj: "requestId n = requestId m \<Longrightarrow> n = m"
  by (simp add: requestId_def showNat_inj)


section \<open>The invariant of the pending-request map\<close>

lemma bridgeInvI:
  assumes "\<And>h x. timerOf b h = Some x \<Longrightarrow> 0 < h \<and> h < nextTimer b \<and> now b \<le> fst x"
    and "0 < nextTimer b"
    and "distinct (map fst (pendingRequests b))"
    and "\<And>rid h. pendingOf b rid = Some h \<Longrightarrow> \<exists>due m. timerOf b h = Some (due, RequestTimeout rid m)"
    and "\<And>h due rid m. timerOf b h = Some (due, RequestTimeout rid m) \<Longrightarrow> pendingOf b rid = Some h"
    and "distinct (map fst (settled b))"
    and "\<And>rid. rid \<in> settledIds b \<Longrightarrow> pendingOf b rid = None"
    and "\<And>rid. (pendingOf b rid \<noteq> None \<or> rid \<in> settledIds b)
                 = (\<exists>k. 1 \<le> k \<and> k \<le> nextRequestId b \<and> rid = requestId k)"
    and "\<And>t. initializeTimer b = Some t \<Longrightarrow>
               t < nextTimer b \<and> (\<forall>due rid m. timerOf b t \<noteq> Some (due, RequestTimeout rid m))"
  shows "bridgeInv b"
  unfolding bridgeInv_def using assms by blast

lemma bridgeInvD:
  assumes "bridgeInv b"
  shows "timerOf b h = Some x \<Longrightarrow> 0 < h \<and> h < nextTimer b \<and> now b \<le> fst x"
    and "0 < nextTimer b"
    and "distinct (map fst (pendingRequests b))"
    and "pendingOf b rid = Some h \<Longrightarrow> \<exists>due m. timerOf b h = Some (due, RequestTimeout rid m)"
    and "timerOf b h = Some (due, RequestTimeout rid m) \<Longrightarrow> pendingOf b rid = Some h"
    and "distinct (map fst (settled b))"
    and "rid \<in> settledIds b \<Longrightarrow> pendingOf b rid = None"
    and "(pendingOf b rid \<noteq> None \<or> rid \<in> settledIds b)
            = (\<exists>k. 1 \<le> k \<and> k \<le> nextRequestId b \<and> rid = requestId k)"
    and "initializeTimer b = Some t \<Longrightarrow>
               t < nextTimer b \<and> (\<forall>due rid m. timerOf b t \<noteq> Some (due, RequestTimeout rid m))"
  using assms unfolding bridgeInv_def by blast+

lemma bridgeInv_core: "core b' = core b \<Longrightarrow> bridgeInv b' = bridgeInv b"
  by (simp add: bridgeInv_def core_def pendingOf_def timerOf_def settledIds_def)

lemma bridgeInv_newBridge: "bridgeInv newBridge"
  by (simp add: bridgeInv_def newBridge_def pendingOf_def timerOf_def settledIds_def)

lemma map_of_filter_key: "map_of (filter (\<lambda>t. fst t \<noteq> h) ts) = (map_of ts)(h := None)"
  by (induction ts) (auto simp: fun_eq_iff)

lemma clearTimeout_fields:
  "timerOf (clearTimeout h b) = (timerOf b)(h := None)"
  "pendingOf (clearTimeout h b) = pendingOf b"
  "settledIds (clearTimeout h b) = settledIds b"
  "pendingRequests (clearTimeout h b) = pendingRequests b"
  "settled (clearTimeout h b) = settled b"
  "nextTimer (clearTimeout h b) = nextTimer b"
  "nextRequestId (clearTimeout h b) = nextRequestId b"
  "now (clearTimeout h b) = now b"
  "initializeTimer (clearTimeout h b) = initializeTimer b"
  "contentWindow (clearTimeout h b) = contentWindow b"
  "iframeStateRef (clearTimeout h b) = iframeStateRef b"
  "initializeAttempts (clearTimeout h b) = initializeAttempts b"
  by (simp_all add: clearTimeout_def timerOf_def pendingOf_def settledIds_def map_of_filter_key)

lemma clearTimeout_other_inv:
  assumes "bridgeInv b"
    and "\<And>due rid m. timerOf b h \<noteq> Some (due, RequestTimeout rid m)"
  shows "bridgeInv (clearTimeout h b)"
proof (rule bridgeInvI)
  fix h' x assume "timerOf (clearTimeout h b) h' = Some x"
  then have "timerOf b h' = Some x" by (simp add: clearTimeout_fields split: if_splits)
  then show "0 < h' \<and> h' < nextTimer (clearTimeout h b) \<and> now (clearTimeout h b) \<le> fst x"
    using bridgeInvD(1) [OF assms(1)] by (simp add: clearTimeout_fields)
next
  show "0 < nextTimer (clearTimeout h b)" using bridgeInvD(2) [OF assms(1)] by (simp add: clearTimeout_fields)
next
  show "distinct (map fst (pendingRequests (clearTimeout h b)))"
    using bridgeInvD(3) [OF assms(1)] by (simp add: clearTimeout_fields)
next
  fix rid h' assume "pendingOf (clearTimeout h b) rid = Some h'"
  then have p: "pendingOf b rid = Some h'" by (simp add: clearTimeout_fields)
  from bridgeInvD(4) [OF assms(1) p] obtain due m where t: "timerOf b h' = Some (due, RequestTimeout rid m)"
    by blast
  with assms(2) have "h' \<noteq> h" by blast
  with t show "\<exists>due m. timerOf (clearTimeout h b) h' = Some (due, RequestTimeout rid m)"
    by (simp add: clearTimeout_fields)
next
  fix h' due rid m assume "timerOf (clearTimeout h b) h' = Some (due, RequestTimeout rid m)"
  then have "timerOf b h' = Some (due, RequestTimeout rid m)"
    by (simp add: clearTimeout_fields split: if_splits)
  then show "pendingOf (clearTimeout h b) rid = Some h'"
    using bridgeInvD(5) [OF assms(1)] by (simp add: clearTimeout_fields)
next
  show "distinct (map fst (settled (clearTimeout h b)))"
    using bridgeInvD(6) [OF assms(1)] by (simp add: clearTimeout_fields)
next
  fix rid assume "rid \<in> settledIds (clearTimeout h b)"
  then show "pendingOf (clearTimeout h b) rid = None"
    using bridgeInvD(7) [OF assms(1)] by (simp add: clearTimeout_fields)
next
  fix rid
  show "(pendingOf (clearTimeout h b) rid \<noteq> None \<or> rid \<in> settledIds (clearTimeout h b))
          = (\<exists>k. 1 \<le> k \<and> k \<le> nextRequestId (clearTimeout h b) \<and> rid = requestId k)"
    using bridgeInvD(8) [OF assms(1), of rid] by (simp add: clearTimeout_fields)
next
  fix t assume "initializeTimer (clearTimeout h b) = Some t"
  then have "initializeTimer b = Some t" by (simp add: clearTimeout_fields)
  from bridgeInvD(9) [OF assms(1) this]
  show "t < nextTimer (clearTimeout h b)
          \<and> (\<forall>due rid m. timerOf (clearTimeout h b) t \<noteq> Some (due, RequestTimeout rid m))"
    by (simp add: clearTimeout_fields)
qed

lemma initializeTimer_update_inv:
  assumes "bridgeInv b"
    and "\<And>t. v = Some t \<Longrightarrow>
            t < nextTimer b \<and> (\<forall>due rid m. timerOf b t \<noteq> Some (due, RequestTimeout rid m))"
  shows "bridgeInv (b\<lparr>initializeTimer := v\<rparr>)"
proof -
  let ?b = "b\<lparr>initializeTimer := v\<rparr>"
  have e: "timerOf ?b = timerOf b" "pendingOf ?b = pendingOf b" "settledIds ?b = settledIds b"
    by (simp_all add: pendingOf_def timerOf_def settledIds_def)
  show ?thesis
  proof (rule bridgeInvI)
    fix h x assume "timerOf ?b h = Some x"
    then show "0 < h \<and> h < nextTimer ?b \<and> now ?b \<le> fst x"
      using bridgeInvD(1) [OF assms(1), of h x] by (simp add: e)
  next
    show "0 < nextTimer ?b" using bridgeInvD(2) [OF assms(1)] by simp
  next
    show "distinct (map fst (pendingRequests ?b))" using bridgeInvD(3) [OF assms(1)] by simp
  next
    fix rid h assume "pendingOf ?b rid = Some h"
    then show "\<exists>due m. timerOf ?b h = Some (due, RequestTimeout rid m)"
      using bridgeInvD(4) [OF assms(1), of rid h] by (simp add: e)
  next
    fix h due rid m assume "timerOf ?b h = Some (due, RequestTimeout rid m)"
    then show "pendingOf ?b rid = Some h"
      using bridgeInvD(5) [OF assms(1), of h due rid m] by (simp add: e)
  next
    show "distinct (map fst (settled ?b))" using bridgeInvD(6) [OF assms(1)] by simp
  next
    fix rid assume "rid \<in> settledIds ?b"
    then show "pendingOf ?b rid = None" using bridgeInvD(7) [OF assms(1), of rid] by (simp add: e)
  next
    fix rid
    show "(pendingOf ?b rid \<noteq> None \<or> rid \<in> settledIds ?b)
            = (\<exists>k. 1 \<le> k \<and> k \<le> nextRequestId ?b \<and> rid = requestId k)"
      using bridgeInvD(8) [OF assms(1), of rid] by (simp add: e)
  next
    fix t assume "initializeTimer ?b = Some t"
    then have "v = Some t" by simp
    from assms(2) [OF this]
    show "t < nextTimer ?b \<and> (\<forall>due rid m. timerOf ?b t \<noteq> Some (due, RequestTimeout rid m))"
      by (simp add: e)
  qed
qed

lemma setTimeout_fields:
  assumes "timerOf b (nextTimer b) = None"
  shows "fst (setTimeout a d b) = nextTimer b"
    and "timerOf (snd (setTimeout a d b)) = (timerOf b)(nextTimer b \<mapsto> (now b + d, a))"
    and "nextTimer (snd (setTimeout a d b)) = Suc (nextTimer b)"
    and "pendingOf (snd (setTimeout a d b)) = pendingOf b"
    and "settledIds (snd (setTimeout a d b)) = settledIds b"
    and "pendingRequests (snd (setTimeout a d b)) = pendingRequests b"
    and "settled (snd (setTimeout a d b)) = settled b"
    and "nextRequestId (snd (setTimeout a d b)) = nextRequestId b"
    and "now (snd (setTimeout a d b)) = now b"
    and "initializeTimer (snd (setTimeout a d b)) = initializeTimer b"
    and "contentWindow (snd (setTimeout a d b)) = contentWindow b"
proof -
  have "map_of (timers b @ [(nextTimer b, now b + d, a)])
          = (map_of (timers b))(nextTimer b \<mapsto> (now b + d, a))"
    using assms by (auto simp: timerOf_def fun_eq_iff map_add_def split: option.splits)
  then show "timerOf (snd (setTimeout a d b)) = (timerOf b)(nextTimer b \<mapsto> (now b + d, a))"
    by (simp add: setTimeout_def timerOf_def)
qed (simp_all add: setTimeout_def pendingOf_def settledIds_def)

lemma fresh_timer: "bridgeInv b \<Longrightarrow> timerOf b (nextTimer b) = None"
  using bridgeInvD(1) [of b "nextTimer b"] by (cases "timerOf b (nextTimer b)") auto

lemma setTimeout_attempt_inv:
  assumes "bridgeInv b"
  shows "bridgeInv (snd (setTimeout (AttemptSend o') d b))"
proof -
  note f = setTimeout_fields [OF fresh_timer [OF assms], of "AttemptSend o'" d]
  let ?b = "snd (setTimeout (AttemptSend o') d b)"
  show ?thesis
  proof (rule bridgeInvI)
    fix h x assume "timerOf ?b h = Some x"
    then show "0 < h \<and> h < nextTimer ?b \<and> now ?b \<le> fst x"
      using bridgeInvD(1) [OF assms, of h x] bridgeInvD(2) [OF assms]
      by (auto simp: f split: if_splits)
  next
    show "0 < nextTimer ?b" by (simp add: f)
  next
    show "distinct (map fst (pendingRequests ?b))" using bridgeInvD(3) [OF assms] by (simp add: f)
  next
    fix rid h assume "pendingOf ?b rid = Some h"
    then have p: "pendingOf b rid = Some h" by (simp add: f)
    from bridgeInvD(4) [OF assms p] obtain due m where t: "timerOf b h = Some (due, RequestTimeout rid m)"
      by blast
    with fresh_timer [OF assms] have "h \<noteq> nextTimer b" by auto
    with t show "\<exists>due m. timerOf ?b h = Some (due, RequestTimeout rid m)" by (simp add: f)
  next
    fix h due rid m assume "timerOf ?b h = Some (due, RequestTimeout rid m)"
    then have "timerOf b h = Some (due, RequestTimeout rid m)" by (simp add: f split: if_splits)
    then show "pendingOf ?b rid = Some h" using bridgeInvD(5) [OF assms] by (simp add: f)
  next
    show "distinct (map fst (settled ?b))" using bridgeInvD(6) [OF assms] by (simp add: f)
  next
    fix rid assume "rid \<in> settledIds ?b"
    then show "pendingOf ?b rid = None" using bridgeInvD(7) [OF assms] by (simp add: f)
  next
    fix rid
    show "(pendingOf ?b rid \<noteq> None \<or> rid \<in> settledIds ?b)
            = (\<exists>k. 1 \<le> k \<and> k \<le> nextRequestId ?b \<and> rid = requestId k)"
      using bridgeInvD(8) [OF assms, of rid] by (simp add: f)
  next
    fix t assume "initializeTimer ?b = Some t"
    then have "initializeTimer b = Some t" by (simp add: f)
    from bridgeInvD(9) [OF assms this]
    show "t < nextTimer ?b \<and> (\<forall>due rid m. timerOf ?b t \<noteq> Some (due, RequestTimeout rid m))"
      by (auto simp: f)
  qed
qed


lemma postMessage_core: "core (postMessage msg b) = core b"
  by (simp add: core_def postMessage_def)

lemma sendRequest_no_window:
  "\<not> contentWindow b \<Longrightarrow> sendRequest method params timeout b = (Inl (Error ''Iframe not ready''), b)"
  by (simp add: sendRequest_def)

lemma sendRequest_fields:
  assumes "bridgeInv b" and "contentWindow b"
  shows "fst (sendRequest method params timeout b) = Inr (requestId (Suc (nextRequestId b)))"
    and "pendingOf (snd (sendRequest method params timeout b))
           = (pendingOf b)(requestId (Suc (nextRequestId b)) \<mapsto> nextTimer b)"
    and "timerOf (snd (sendRequest method params timeout b))
           = (timerOf b)(nextTimer b \<mapsto>
               (now b + timeout, RequestTimeout (requestId (Suc (nextRequestId b))) method))"
    and "nextTimer (snd (sendRequest method params timeout b)) = Suc (nextTimer b)"
    and "nextRequestId (snd (sendRequest method params timeout b)) = Suc (nextRequestId b)"
    and "settled (snd (sendRequest method params timeout b)) = settled b"
    and "now (snd (sendRequest method params timeout b)) = now b"
    and "initializeTimer (snd (sendRequest method params timeout b)) = initializeTimer b"
    and "pendingRequests (snd (sendRequest method params timeout b))
           = AList.update (requestId (Suc (nextRequestId b))) (nextTimer b) (pendingRequests b)"
    and "contentWindow (snd (sendRequest method params timeout b))"
    and "iframeStateRef (snd (sendRequest method params timeout b)) = iframeStateRef b"
    and "initializeAttempts (snd (sendRequest method params timeout b)) = initializeAttempts b"
proof -
  let ?b1 = "b\<lparr>nextRequestId := Suc (nextRequestId b)\<rparr>"
  have fr: "timerOf ?b1 (nextTimer ?b1) = None"
    using fresh_timer [OF assms(1)] by (simp add: timerOf_def)
  note f = setTimeout_fields [OF fr, of "RequestTimeout (requestId (Suc (nextRequestId b))) method" timeout]
  have t1: "timerOf ?b1 = timerOf b" by (simp add: timerOf_def)
  let ?b2 = "snd (setTimeout (RequestTimeout (requestId (Suc (nextRequestId b))) method) timeout ?b1)"
  have s: "sendRequest method params timeout b =
     (Inr (requestId (Suc (nextRequestId b))),
      postMessage (rpcRequest (requestId (Suc (nextRequestId b))) method params)
        (?b2\<lparr>pendingRequests :=
               AList.update (requestId (Suc (nextRequestId b))) (fst (setTimeout (RequestTimeout (requestId (Suc (nextRequestId b))) method) timeout ?b1))
                 (pendingRequests ?b2)\<rparr>))"
    using assms(2) by (simp add: sendRequest_def Let_def split_def)
  show "fst (sendRequest method params timeout b) = Inr (requestId (Suc (nextRequestId b)))"
    by (simp add: s)
  show "pendingOf (snd (sendRequest method params timeout b))
           = (pendingOf b)(requestId (Suc (nextRequestId b)) \<mapsto> nextTimer b)"
    using f(1,6) by (simp add: s pendingOf_def postMessage_def update_conv')
  show "timerOf (snd (sendRequest method params timeout b))
           = (timerOf b)(nextTimer b \<mapsto>
               (now b + timeout, RequestTimeout (requestId (Suc (nextRequestId b))) method))"
    using f(2) t1 by (simp add: s timerOf_def postMessage_def)
  show "nextTimer (snd (sendRequest method params timeout b)) = Suc (nextTimer b)"
    using f(3) by (simp add: s postMessage_def)
  show "nextRequestId (snd (sendRequest method params timeout b)) = Suc (nextRequestId b)"
    using f(8) by (simp add: s postMessage_def)
  show "settled (snd (sendRequest method params timeout b)) = settled b"
    using f(7) by (simp add: s postMessage_def)
  show "now (snd (sendRequest method params timeout b)) = now b"
    using f(9) by (simp add: s postMessage_def)
  show "initializeTimer (snd (sendRequest method params timeout b)) = initializeTimer b"
    using f(10) by (simp add: s postMessage_def)
  show "pendingRequests (snd (sendRequest method params timeout b))
           = AList.update (requestId (Suc (nextRequestId b))) (nextTimer b) (pendingRequests b)"
    using f(1,6) by (simp add: s postMessage_def)
  show "contentWindow (snd (sendRequest method params timeout b))"
    using f(11) assms(2) by (simp add: s postMessage_def)
  show "iframeStateRef (snd (sendRequest method params timeout b)) = iframeStateRef b"
    by (simp add: s postMessage_def setTimeout_def)
  show "initializeAttempts (snd (sendRequest method params timeout b)) = initializeAttempts b"
    by (simp add: s postMessage_def setTimeout_def)
qed

lemma fresh_request:
  assumes "bridgeInv b"
  shows "pendingOf b (requestId (Suc (nextRequestId b))) = None"
    and "requestId (Suc (nextRequestId b)) \<notin> settledIds b"
proof -
  have "\<not> (\<exists>k. 1 \<le> k \<and> k \<le> nextRequestId b \<and> requestId (Suc (nextRequestId b)) = requestId k)"
    using requestId_inj by fastforce
  with bridgeInvD(8) [OF assms, of "requestId (Suc (nextRequestId b))"]
  show "pendingOf b (requestId (Suc (nextRequestId b))) = None"
    and "requestId (Suc (nextRequestId b)) \<notin> settledIds b" by auto
qed

lemma sendRequest_inv:
  assumes "bridgeInv b"
  shows "bridgeInv (snd (sendRequest method params timeout b))"
proof (cases "contentWindow b")
  case False
  then show ?thesis using assms by (simp add: sendRequest_no_window)
next
  case True
  note f = sendRequest_fields [OF assms True, of "method" "params" "timeout"]
  let ?b = "snd (sendRequest method params timeout b)"
  let ?rid = "requestId (Suc (nextRequestId b))"
  note fr = fresh_request [OF assms] fresh_timer [OF assms]
  show ?thesis
  proof (rule bridgeInvI)
    fix h x assume "timerOf ?b h = Some x"
    then show "0 < h \<and> h < nextTimer ?b \<and> now ?b \<le> fst x"
      using bridgeInvD(1) [OF assms, of h x] bridgeInvD(2) [OF assms]
      by (auto simp: f split: if_splits)
  next
    show "0 < nextTimer ?b" by (simp add: f)
  next
    show "distinct (map fst (pendingRequests ?b))"
      using bridgeInvD(3) [OF assms] by (simp add: f distinct_update)
  next
    fix rid h assume p: "pendingOf ?b rid = Some h"
    show "\<exists>due m. timerOf ?b h = Some (due, RequestTimeout rid m)"
    proof (cases "rid = ?rid")
      case True
      with p show ?thesis by (simp add: f)
    next
      case False
      with p have p': "pendingOf b rid = Some h" by (simp add: f)
      from bridgeInvD(4) [OF assms p'] obtain due m where t: "timerOf b h = Some (due, RequestTimeout rid m)"
        by blast
      with fr(3) have "h \<noteq> nextTimer b" by auto
      with t show ?thesis by (simp add: f)
    qed
  next
    fix h due rid m assume t: "timerOf ?b h = Some (due, RequestTimeout rid m)"
    show "pendingOf ?b rid = Some h"
    proof (cases "h = nextTimer b")
      case True
      with t have "rid = ?rid" by (simp add: f)
      then show ?thesis using True by (simp add: f)
    next
      case False
      with t have t': "timerOf b h = Some (due, RequestTimeout rid m)" by (simp add: f)
      from bridgeInvD(5) [OF assms t'] have p: "pendingOf b rid = Some h" .
      with fr(1) have "rid \<noteq> ?rid" by auto
      with p show ?thesis by (simp add: f)
    qed
  next
    show "distinct (map fst (settled ?b))" using bridgeInvD(6) [OF assms] by (simp add: f)
  next
    fix rid assume s: "rid \<in> settledIds ?b"
    then have s': "rid \<in> settledIds b" by (simp add: settledIds_def f)
    with fr(2) have "rid \<noteq> ?rid" by auto
    then show "pendingOf ?b rid = None" using bridgeInvD(7) [OF assms s'] by (simp add: f)
  next
    fix rid
    have "(\<exists>k. 1 \<le> k \<and> k \<le> Suc (nextRequestId b) \<and> rid = requestId k)
            = (rid = ?rid \<or> (\<exists>k. 1 \<le> k \<and> k \<le> nextRequestId b \<and> rid = requestId k))"
      by (metis le_Suc_eq le_add1 plus_1_eq_Suc)
    then show "(pendingOf ?b rid \<noteq> None \<or> rid \<in> settledIds ?b)
            = (\<exists>k. 1 \<le> k \<and> k \<le> nextRequestId ?b \<and> rid = requestId k)"
      using bridgeInvD(8) [OF assms, of rid] by (auto simp: f settledIds_def)
  next
    fix t assume "initializeTimer ?b = Some t"
    then have i: "initializeTimer b = Some t" by (simp add: f)
    from bridgeInvD(9) [OF assms i] have "t < nextTimer b"
      and n: "\<forall>due rid m. timerOf b t \<noteq> Some (due, RequestTimeout rid m)" by auto
    then show "t < nextTimer ?b \<and> (\<forall>due rid m. timerOf ?b t \<noteq> Some (due, RequestTimeout rid m))"
      by (simp add: f)
  qed
qed


lemma settle_fields:
  fixes b rid h out
  defines "b' \<equiv> (clearTimeout h b)\<lparr>pendingRequests := AList.delete rid (pendingRequests b),
                                     settled := settled b @ [(rid, out)]\<rparr>"
  shows "timerOf b' = (timerOf b)(h := None)"
    and "pendingOf b' = (pendingOf b)(rid := None)"
    and "settledIds b' = insert rid (settledIds b)"
    and "nextTimer b' = nextTimer b"
    and "nextRequestId b' = nextRequestId b"
    and "now b' = now b"
    and "initializeTimer b' = initializeTimer b"
    and "pendingRequests b' = AList.delete rid (pendingRequests b)"
    and "settled b' = settled b @ [(rid, out)]"
  by (simp_all add: b'_def clearTimeout_def timerOf_def pendingOf_def settledIds_def
        map_of_filter_key delete_conv')

lemma settle_inv:
  assumes "bridgeInv b" and "pendingOf b rid = Some h"
  shows "bridgeInv ((clearTimeout h b)\<lparr>pendingRequests := AList.delete rid (pendingRequests b),
                                       settled := settled b @ [(rid, out)]\<rparr>)"
    (is "bridgeInv ?b")
proof -
  note f = settle_fields [where h = h and b = b and rid = rid and out = out]
  from bridgeInvD(4) [OF assms] obtain due m where th: "timerOf b h = Some (due, RequestTimeout rid m)"
    by blast
  have ns: "rid \<notin> settledIds b" using bridgeInvD(7) [OF assms(1), of rid] assms(2) by auto
  show ?thesis
  proof (rule bridgeInvI)
    fix h' x assume "timerOf ?b h' = Some x"
    then have "timerOf b h' = Some x" by (simp add: f split: if_splits)
    then show "0 < h' \<and> h' < nextTimer ?b \<and> now ?b \<le> fst x"
      using bridgeInvD(1) [OF assms(1)] by (simp add: f)
  next
    show "0 < nextTimer ?b" using bridgeInvD(2) [OF assms(1)] by (simp add: f)
  next
    show "distinct (map fst (pendingRequests ?b))"
      using bridgeInvD(3) [OF assms(1)] by (simp add: f distinct_delete)
  next
    fix rid' h' assume "pendingOf ?b rid' = Some h'"
    then have p: "pendingOf b rid' = Some h'" and ne: "rid' \<noteq> rid"
      by (simp_all add: f split: if_splits)
    from bridgeInvD(4) [OF assms(1) p] obtain due' m' where
      t: "timerOf b h' = Some (due', RequestTimeout rid' m')" by blast
    have "h' \<noteq> h" using t th ne by auto
    with t show "\<exists>due m. timerOf ?b h' = Some (due, RequestTimeout rid' m)" by (simp add: f)
  next
    fix h' due' rid' m' assume "timerOf ?b h' = Some (due', RequestTimeout rid' m')"
    then have t: "timerOf b h' = Some (due', RequestTimeout rid' m')" and ne: "h' \<noteq> h"
      by (simp_all add: f split: if_splits)
    from bridgeInvD(5) [OF assms(1) t] have p: "pendingOf b rid' = Some h'" .
    with assms(2) ne have "rid' \<noteq> rid" by auto
    with p show "pendingOf ?b rid' = Some h'" by (simp add: f)
  next
    show "distinct (map fst (settled ?b))"
      using bridgeInvD(6) [OF assms(1)] ns by (simp add: f settledIds_def)
  next
    fix rid' assume "rid' \<in> settledIds ?b"
    then show "pendingOf ?b rid' = None"
      using bridgeInvD(7) [OF assms(1), of rid'] by (auto simp: f)
  next
    fix rid'
    show "(pendingOf ?b rid' \<noteq> None \<or> rid' \<in> settledIds ?b)
            = (\<exists>k. 1 \<le> k \<and> k \<le> nextRequestId ?b \<and> rid' = requestId k)"
      using bridgeInvD(8) [OF assms(1), of rid'] assms(2) by (auto simp: f)
  next
    fix t assume "initializeTimer ?b = Some t"
    then have "initializeTimer b = Some t" by (simp add: f)
    from bridgeInvD(9) [OF assms(1) this]
    show "t < nextTimer ?b \<and> (\<forall>due rid m. timerOf ?b t \<noteq> Some (due, RequestTimeout rid m))"
      by (simp add: f)
  qed
qed

lemma handleResponse_found:
  assumes "bridgeInv b" and "pendingOf b (toJSString (getProp data ''id'')) = Some h"
  shows "handleResponse data b =
     (clearTimeout h b)\<lparr>pendingRequests := AList.delete (toJSString (getProp data ''id'')) (pendingRequests b),
                        settled := settled b @
                          [(toJSString (getProp data ''id''),
                            if hasKey data ''error'' then RejectedWith (getProp data ''error'')
                            else Resolved (getProp data ''result''))]\<rparr>"
proof -
  from bridgeInvD(4) [OF assms] obtain due m where "timerOf b h = Some (due, RequestTimeout (toJSString (getProp data ''id'')) m)"
    by blast
  from bridgeInvD(1) [OF assms(1) this] have "h \<noteq> 0" by simp
  then show ?thesis
    using assms(2) by (simp add: handleResponse_def pendingOf_def Let_def clearTimeout_def)
qed

lemma handleResponse_not_found:
  "pendingOf b (toJSString (getProp data ''id'')) = None \<Longrightarrow> handleResponse data b = b"
  by (simp add: handleResponse_def pendingOf_def Let_def)

lemma handleResponse_inv: "bridgeInv b \<Longrightarrow> bridgeInv (handleResponse data b)"
proof (cases "pendingOf b (toJSString (getProp data ''id''))")
  case None
  assume "bridgeInv b"
  with None show ?thesis by (simp add: handleResponse_not_found)
next
  case (Some h)
  assume i: "bridgeInv b"
  show ?thesis by (simp only: handleResponse_found [OF i Some] settle_inv [OF i Some])
qed

lemma find_map_of:
  "find (\<lambda>t. fst t = h) ts = (case map_of ts h of None \<Rightarrow> None | Some x \<Rightarrow> Some (h, x))"
  by (induction ts) auto

lemma fireTimer_request:
  assumes "timerOf b h = Some (due, RequestTimeout rid m)"
  shows "fireTimer h b =
     (clearTimeout h b)\<lparr>pendingRequests := AList.delete rid (pendingRequests b),
                        settled := settled b @ [(rid, Rejected (Error (''Request timeout: '' @ m)))]\<rparr>"
  using assms by (simp add: fireTimer_def find_map_of timerOf_def Let_def clearTimeout_def)

lemma fireTimer_attempt:
  assumes "timerOf b h = Some (due, AttemptSend o')"
  shows "fireTimer h b = attemptSend o' (clearTimeout h b)"
  using assms by (simp add: fireTimer_def find_map_of timerOf_def Let_def)

lemma fireTimer_none: "timerOf b h = None \<Longrightarrow> fireTimer h b = b"
  by (simp add: fireTimer_def find_map_of timerOf_def)

lemma sendInitialize_inv: "bridgeInv b \<Longrightarrow> bridgeInv (sendInitialize opts b)"
  by (simp add: sendInitialize_def sendRequest_inv)

lemma attemptSend_unfold:
  "iframeStateRef b \<noteq> Ready \<Longrightarrow>
   attemptSend opts b =
     (if initializeAttempts (sendInitialize opts (b\<lparr>initializeAttempts := initializeAttempts b + 1\<rparr>)) < 5
      then (snd (setTimeout (AttemptSend opts) 300
                  (sendInitialize opts (b\<lparr>initializeAttempts := initializeAttempts b + 1\<rparr>))))
           \<lparr>initializeTimer :=
              Some (fst (setTimeout (AttemptSend opts) 300
                          (sendInitialize opts (b\<lparr>initializeAttempts := initializeAttempts b + 1\<rparr>))))\<rparr>
      else (sendInitialize opts (b\<lparr>initializeAttempts := initializeAttempts b + 1\<rparr>))
           \<lparr>initializeTimer := None\<rparr>)"
  unfolding attemptSend_def Let_def split_def by (rule if_not_P)

lemma setTimeout_retry_inv:
  assumes "bridgeInv b"
  shows "bridgeInv ((snd (setTimeout (AttemptSend opts) d b))
                     \<lparr>initializeTimer := Some (fst (setTimeout (AttemptSend opts) d b))\<rparr>)"
proof -
  let ?b3 = "snd (setTimeout (AttemptSend opts) d b)"
  note f = setTimeout_fields [OF fresh_timer [OF assms], of "AttemptSend opts" d]
  have i3: "bridgeInv ?b3" using assms by (rule setTimeout_attempt_inv)
  show ?thesis
  proof (rule initializeTimer_update_inv [OF i3])
    fix t assume "Some (fst (setTimeout (AttemptSend opts) d b)) = Some t"
    then have "t = nextTimer b" by (simp add: f(1))
    then show "t < nextTimer ?b3 \<and> (\<forall>due rid m. timerOf ?b3 t \<noteq> Some (due, RequestTimeout rid m))"
      by (simp add: f(2,3))
  qed
qed

lemma attemptSend_inv:
  assumes "bridgeInv b"
  shows "bridgeInv (attemptSend opts b)"
proof (cases "iframeStateRef b = Ready")
  case True
  then show ?thesis using assms by (simp add: attemptSend_def)
next
  case False
  let ?b1 = "b\<lparr>initializeAttempts := initializeAttempts b + 1\<rparr>"
  let ?b2 = "sendInitialize opts ?b1"
  have "core ?b1 = core b" by (simp add: core_def)
  then have "bridgeInv ?b1" using assms by (simp only: bridgeInv_core [of ?b1 b])
  then have i2: "bridgeInv ?b2" by (rule sendInitialize_inv)
  show ?thesis
  proof (cases "initializeAttempts ?b2 < 5")
    case True
    have "bridgeInv ((snd (setTimeout (AttemptSend opts) 300 ?b2))
                       \<lparr>initializeTimer := Some (fst (setTimeout (AttemptSend opts) 300 ?b2))\<rparr>)"
      using i2 by (rule setTimeout_retry_inv)
    then show ?thesis using True by (simp only: attemptSend_unfold [OF False] if_True)
  next
    case f: False
    have "bridgeInv (?b2\<lparr>initializeTimer := None\<rparr>)"
      by (rule initializeTimer_update_inv [OF i2]) simp
    then show ?thesis using f by (simp only: attemptSend_unfold [OF False] if_False)
  qed
qed

lemma clear_initializeTimer_inv:
  assumes "bridgeInv b" and "initializeTimer b = Some t"
  shows "bridgeInv (clearTimeout t b)"
  using bridgeInvD(9) [OF assms] by (intro clearTimeout_other_inv [OF assms(1)]) simp

lemma sendInitializeWithRetry_inv:
  assumes "bridgeInv b"
  shows "bridgeInv (sendInitializeWithRetry opts b)"
proof (cases "iframeStateRef b = Ready")
  case True
  then show ?thesis using assms by (simp add: sendInitializeWithRetry_def)
next
  case False
  let ?b1 = "case initializeTimer b of None \<Rightarrow> b | Some t \<Rightarrow> clearTimeout t b"
  have "bridgeInv ?b1"
    using assms clear_initializeTimer_inv [OF assms] by (cases "initializeTimer b") simp_all
  moreover have "core (?b1\<lparr>initializeAttempts := 0\<rparr>) = core ?b1" by (simp add: core_def)
  ultimately have "bridgeInv (?b1\<lparr>initializeAttempts := 0\<rparr>)"
    by (simp only: bridgeInv_core [of "?b1\<lparr>initializeAttempts := 0\<rparr>" ?b1])
  then have "bridgeInv (attemptSend opts (?b1\<lparr>initializeAttempts := 0\<rparr>))" by (rule attemptSend_inv)
  then show ?thesis using False by (simp add: sendInitializeWithRetry_def Let_def)
qed

lemma cancelInitializeTimer_inv:
  assumes "bridgeInv b"
  shows "bridgeInv (cancelInitializeTimer b)"
proof (cases "initializeTimer b")
  case None
  then show ?thesis using assms by (simp add: cancelInitializeTimer_def)
next
  case (Some t)
  have "bridgeInv ((clearTimeout t b)\<lparr>initializeTimer := None\<rparr>)"
    by (rule initializeTimer_update_inv [OF clear_initializeTimer_inv [OF assms Some]]) simp
  then show ?thesis using Some by (simp add: cancelInitializeTimer_def)
qed

lemma fireTimer_inv:
  assumes "bridgeInv b"
  shows "bridgeInv (fireTimer h b)"
proof (cases "timerOf b h")
  case None
  then show ?thesis using assms by (simp add: fireTimer_none)
next
  case (Some x)
  obtain due action where x: "x = (due, action)" by (cases x)
  show ?thesis
  proof (cases action)
    case (RequestTimeout rid m)
    with Some x have t: "timerOf b h = Some (due, RequestTimeout rid m)" by simp
    from bridgeInvD(5) [OF assms t] have p: "pendingOf b rid = Some h" .
    show ?thesis by (simp only: fireTimer_request [OF t] settle_inv [OF assms p])
  next
    case (AttemptSend o')
    with Some x have t: "timerOf b h = Some (due, AttemptSend o')" by simp
    have "bridgeInv (clearTimeout h b)"
      using t by (intro clearTimeout_other_inv [OF assms]) simp
    then show ?thesis by (simp add: fireTimer_attempt [OF t] attemptSend_inv)
  qed
qed


lemma fold_rejectUnmounted:
  assumes "\<forall>e \<in> set es. snd e \<noteq> 0"
  shows "fold rejectUnmounted es b =
     b\<lparr>timers := filter (\<lambda>t. fst t \<notin> snd ` set es) (timers b),
       settled := settled b @ map (\<lambda>e. (fst e, Rejected (Error ''Component unmounted''))) es\<rparr>"
  using assms
proof (induction es arbitrary: b)
  case Nil
  show ?case by simp
next
  case (Cons e es)
  have nz: "snd e \<noteq> 0" "\<forall>e \<in> set es. snd e \<noteq> 0" using Cons.prems by simp_all
  let ?b = "rejectUnmounted e b"
  have r: "?b = b\<lparr>timers := filter (\<lambda>t. fst t \<noteq> snd e) (timers b),
                  settled := settled b @ [(fst e, Rejected (Error ''Component unmounted''))]\<rparr>"
    using nz(1) by (simp add: rejectUnmounted_def Let_def clearTimeout_def)
  have ff: "filter (\<lambda>x. fst x \<noteq> snd e \<and> fst x \<notin> snd ` set es) (timers b)
              = filter (\<lambda>t. fst t \<notin> snd ` set (e # es)) (timers b)"
    by (auto intro: filter_cong)
  have "fold rejectUnmounted (e # es) b = fold rejectUnmounted es ?b" by simp
  also have "\<dots> = ?b\<lparr>timers := filter (\<lambda>t. fst t \<notin> snd ` set es) (timers ?b),
       settled := settled ?b @ map (\<lambda>e. (fst e, Rejected (Error ''Component unmounted''))) es\<rparr>"
    by (rule Cons.IH) (rule nz(2))
  also have "\<dots> = b\<lparr>timers := filter (\<lambda>t. fst t \<notin> snd ` set (e # es)) (timers b),
       settled := settled b @ map (\<lambda>e. (fst e, Rejected (Error ''Component unmounted''))) (e # es)\<rparr>"
    by (simp add: r ff del: set_simps)
  finally show ?case .
qed

lemma map_of_filter_keys:
  "map_of (filter (\<lambda>t. fst t \<notin> S) ts) h = (if h \<in> S then None else map_of ts h)"
  by (induction ts) auto

lemma unmount_fields:
  assumes "bridgeInv b"
  shows "pendingRequests (unmount b) = []"
    and "settled (unmount b)
           = settled b @ map (\<lambda>e. (fst e, Rejected (Error ''Component unmounted''))) (pendingRequests b)"
    and "timerOf (unmount b) h = Some x \<Longrightarrow> timerOf b h = Some x \<and> h \<notin> snd ` set (pendingRequests b)"
    and "nextTimer (unmount b) = nextTimer b"
    and "nextRequestId (unmount b) = nextRequestId b"
    and "now (unmount b) = now b"
    and "initializeTimer (unmount b) = initializeTimer b"
proof -
  let ?b1 = "case initializeTimer b of None \<Rightarrow> b | Some t \<Rightarrow> clearTimeout t b"
  have p1: "pendingRequests ?b1 = pendingRequests b" "settled ?b1 = settled b"
    "nextTimer ?b1 = nextTimer b" "nextRequestId ?b1 = nextRequestId b" "now ?b1 = now b"
    "initializeTimer ?b1 = initializeTimer b"
    by (simp_all add: clearTimeout_fields split: option.splits)
  have t1: "timerOf ?b1 h = Some x \<Longrightarrow> timerOf b h = Some x" for h x
    by (cases "initializeTimer b") (simp_all add: clearTimeout_fields split: if_splits)
  have nz: "\<forall>e \<in> set (pendingRequests b). snd e \<noteq> 0"
  proof
    fix e assume e: "e \<in> set (pendingRequests b)"
    then have "pendingOf b (fst e) = Some (snd e)"
      using bridgeInvD(3) [OF assms] by (simp add: pendingOf_def)
    from bridgeInvD(4) [OF assms this] obtain due m where
      "timerOf b (snd e) = Some (due, RequestTimeout (fst e) m)" by blast
    from bridgeInvD(1) [OF assms this] show "snd e \<noteq> 0" by simp
  qed
  have u: "unmount b =
     ?b1\<lparr>timers := filter (\<lambda>t. fst t \<notin> snd ` set (pendingRequests b)) (timers ?b1),
          settled := settled b @ map (\<lambda>e. (fst e, Rejected (Error ''Component unmounted''))) (pendingRequests b),
          pendingRequests := []\<rparr>"
    using fold_rejectUnmounted [OF nz, of ?b1] p1 by (simp add: unmount_def Let_def)
  show "pendingRequests (unmount b) = []" by (simp add: u)
  show "settled (unmount b)
           = settled b @ map (\<lambda>e. (fst e, Rejected (Error ''Component unmounted''))) (pendingRequests b)"
    by (simp add: u)
  show "nextTimer (unmount b) = nextTimer b" by (simp add: u p1)
  show "nextRequestId (unmount b) = nextRequestId b" by (simp add: u p1)
  show "now (unmount b) = now b" by (simp add: u p1)
  show "initializeTimer (unmount b) = initializeTimer b" by (simp add: u p1)
  assume "timerOf (unmount b) h = Some x"
  then have "timerOf ?b1 h = Some x \<and> h \<notin> snd ` set (pendingRequests b)"
    by (simp add: u timerOf_def map_of_filter_keys split: if_splits)
  then show "timerOf b h = Some x \<and> h \<notin> snd ` set (pendingRequests b)"
    using t1 by blast
qed

lemma unmount_inv:
  assumes "bridgeInv b"
  shows "bridgeInv (unmount b)"
proof -
  note f = unmount_fields [OF assms]
  have mem: "pendingOf b rid = Some h \<longleftrightarrow> (rid, h) \<in> set (pendingRequests b)" for rid h
    using bridgeInvD(3) [OF assms] by (simp add: pendingOf_def)
  have keys: "pendingOf b rid \<noteq> None \<longleftrightarrow> rid \<in> fst ` set (pendingRequests b)" for rid
    by (simp add: pendingOf_def map_of_eq_None_iff)
  have sid: "settledIds (unmount b) = settledIds b \<union> fst ` set (pendingRequests b)"
    by (simp add: settledIds_def f(2) image_Un image_image)
  show ?thesis
  proof (rule bridgeInvI)
    fix h x assume "timerOf (unmount b) h = Some x"
    from f(3) [OF this] bridgeInvD(1) [OF assms, of h x]
    show "0 < h \<and> h < nextTimer (unmount b) \<and> now (unmount b) \<le> fst x" by (simp add: f)
  next
    show "0 < nextTimer (unmount b)" using bridgeInvD(2) [OF assms] by (simp add: f)
  next
    show "distinct (map fst (pendingRequests (unmount b)))" by (simp add: f)
  next
    fix rid h assume "pendingOf (unmount b) rid = Some h"
    then show "\<exists>due m. timerOf (unmount b) h = Some (due, RequestTimeout rid m)"
      by (simp add: pendingOf_def f)
  next
    fix h due rid m assume "timerOf (unmount b) h = Some (due, RequestTimeout rid m)"
    from f(3) [OF this] have t: "timerOf b h = Some (due, RequestTimeout rid m)"
      and n: "h \<notin> snd ` set (pendingRequests b)" by auto
    from bridgeInvD(5) [OF assms t] have "(rid, h) \<in> set (pendingRequests b)" by (simp add: mem)
    then have "h \<in> snd ` set (pendingRequests b)" by force
    with n show "pendingOf (unmount b) rid = Some h" by simp
  next
    have "\<forall>rid \<in> fst ` set (pendingRequests b). rid \<notin> settledIds b"
    proof
      fix rid assume "rid \<in> fst ` set (pendingRequests b)"
      then have "pendingOf b rid \<noteq> None" using keys [of rid] by blast
      then show "rid \<notin> settledIds b" using bridgeInvD(7) [OF assms, of rid] by auto
    qed
    then have "set (map fst (settled b)) \<inter> set (map fst (pendingRequests b)) = {}"
      unfolding settledIds_def by force
    then show "distinct (map fst (settled (unmount b)))"
      using bridgeInvD(3,6) [OF assms] by (simp add: f(2) comp_def)
  next
    fix rid assume "rid \<in> settledIds (unmount b)"
    show "pendingOf (unmount b) rid = None" by (simp add: pendingOf_def f)
  next
    fix rid
    have "pendingOf (unmount b) rid = None" by (simp add: pendingOf_def f)
    then show "(pendingOf (unmount b) rid \<noteq> None \<or> rid \<in> settledIds (unmount b))
            = (\<exists>k. 1 \<le> k \<and> k \<le> nextRequestId (unmount b) \<and> rid = requestId k)"
      using bridgeInvD(8) [OF assms, of rid] keys [of rid] by (auto simp: sid f)
  next
    fix t assume "initializeTimer (unmount b) = Some t"
    then have i: "initializeTimer b = Some t" by (simp add: f)
    from bridgeInvD(9) [OF assms i] f(3) [of t]
    show "t < nextTimer (unmount b)
            \<and> (\<forall>due rid m. timerOf (unmount b) t \<noteq> Some (due, RequestTimeout rid m))"
      by (auto simp: f)
  qed
qed


lemma bridgeInv_coreI: "bridgeInv b \<Longrightarrow> core b' = core b \<Longrightarrow> bridgeInv b'"
  by (simp only: bridgeInv_core [of b' b])

lemma sendResponse_core: "core (sendResponse rid result b) = core b"
  by (simp add: sendResponse_def postMessage_core)

lemma sendNotification_core: "core (sendNotification method params b) = core b"
  by (simp add: sendNotification_def postMessage_core)

lemma ackIfRequest_core: "core (ackIfRequest rid result b) = core b"
  by (simp add: ackIfRequest_def sendResponse_core)

lemma handleSandboxReady_core: "core (handleSandboxReady opts params b) = core b"
  by (simp add: handleSandboxReady_def Let_def sendNotification_core split: option.splits)

lemma sandboxResourceCache_core: "core (b\<lparr>sandboxResourceCache := x\<rparr>) = core b"
  by (simp add: core_def)

lemma handleSandboxResource_core: "core (handleSandboxResource opts params b) = core b"
  unfolding handleSandboxResource_def Let_def
  by (simp add: sendNotification_core sandboxResourceCache_core split: option.splits)

lemma handleToolsCall_core: "core (handleToolsCall opts params rid b) = core b"
  by (simp add: handleToolsCall_def Let_def ackIfRequest_core)

lemma handleSizeChange_core: "core (handleSizeChange params b) = core b"
  by (simp add: handleSizeChange_def core_def)

lemma sendToolNotification_core: "core (sendToolNotification method params b) = core b"
  by (simp add: sendToolNotification_def postMessage_core) (simp add: core_def)

lemma replayQueuedNotifications_core: "core (replayQueuedNotifications b) = core b"
  by (simp add: replayQueuedNotifications_def core_def)

lemma sendHydrationData_core:
  "sendHydrationData jp opts b = Inr b' \<Longrightarrow> core b' = core b"
  by (auto simp: sendHydrationData_def Let_def postMessage_core split: if_splits sum.splits)

lemma handleInitialized_core:
  "core (handleInitialized jp opts b) = core ((cancelInitializeTimer b)\<lparr>iframeState := Ready\<rparr>)"
proof (cases "sendHydrationData jp opts ((cancelInitializeTimer b)\<lparr>iframeState := Ready\<rparr>)")
  case (Inl e)
  then show ?thesis by (simp add: handleInitialized_def Let_def)
next
  case (Inr b3)
  from sendHydrationData_core [OF Inr] Inr show ?thesis
    by (simp add: handleInitialized_def Let_def replayQueuedNotifications_core)
qed

lemma iframeState_core: "core (b\<lparr>iframeState := s\<rparr>) = core b"
  by (simp add: core_def)

lemma handleInitialized_inv:
  assumes "bridgeInv b"
  shows "bridgeInv (handleInitialized jp opts b)"
proof -
  have "bridgeInv (cancelInitializeTimer b)" using assms by (rule cancelInitializeTimer_inv)
  then have "bridgeInv ((cancelInitializeTimer b)\<lparr>iframeState := Ready\<rparr>)"
    by (rule bridgeInv_coreI) (rule iframeState_core)
  then show ?thesis by (rule bridgeInv_coreI) (rule handleInitialized_core)
qed

lemma handleLegacyInitialize_core:
  "core (handleLegacyInitialize opts rid b) = core (cancelInitializeTimer b)"
proof -
  have c: "core b1 = core b2 \<Longrightarrow> core (cancelInitializeTimer b1) = core (cancelInitializeTimer b2)" for b1 b2
    by (auto simp: core_def cancelInitializeTimer_def clearTimeout_def split: option.splits)
  have "core (sendNotification ''ui/notifications/initialized'' (JObj []) (sendResponse rid r b)) = core b" for r
    by (simp add: sendNotification_core sendResponse_core)
  from c [OF this] show ?thesis
    by (simp add: handleLegacyInitialize_def Let_def iframeState_core)
qed

lemma handleLegacyInitialize_inv:
  assumes "bridgeInv b"
  shows "bridgeInv (handleLegacyInitialize opts rid b)"
  using cancelInitializeTimer_inv [OF assms] by (rule bridgeInv_coreI) (rule handleLegacyInitialize_core)

lemma handleMessage_shape:
  assumes "P b"
    and "P (handleResponse data b)"
    and "P (sendInitializeWithRetry opts b)"
    and "P (handleInitialized jp opts b)"
    and "P (handleLegacyInitialize opts (getProp data ''id'') b)"
    and "\<And>b'. core b' = core b \<Longrightarrow> P b'"
  shows "P (handleMessage jp opts data b)"
  unfolding handleMessage_def Let_def
  by (simp add: assms(1-5) assms(6) [OF handleSandboxReady_core]
        assms(6) [OF handleSandboxResource_core] assms(6) [OF ackIfRequest_core]
        assms(6) [OF handleToolsCall_core] assms(6) [OF handleSizeChange_core])

lemma handleMessage_inv:
  assumes "bridgeInv b"
  shows "bridgeInv (handleMessage jp opts data b)"
proof (rule handleMessage_shape)
  show "bridgeInv b" by (rule assms)
  show "bridgeInv (handleResponse data b)" using assms by (rule handleResponse_inv)
  show "bridgeInv (sendInitializeWithRetry opts b)" using assms by (rule sendInitializeWithRetry_inv)
  show "bridgeInv (handleInitialized jp opts b)" using assms by (rule handleInitialized_inv)
  show "bridgeInv (handleLegacyInitialize opts (getProp data ''id'') b)"
    using assms by (rule handleLegacyInitialize_inv)
  show "\<And>b'. core b' = core b \<Longrightarrow> bridgeInv b'" using assms by (rule bridgeInv_coreI)
qed

lemma elapse_inv:
  assumes "bridgeInv b" and "\<forall>t \<in> set (timers b). now b + d \<le> fst (snd t)"
  shows "bridgeInv (b\<lparr>now := now b + d\<rparr>)"
proof -
  let ?b = "b\<lparr>now := now b + d\<rparr>"
  have e: "timerOf ?b = timerOf b" "pendingOf ?b = pendingOf b" "settledIds ?b = settledIds b"
    by (simp_all add: pendingOf_def timerOf_def settledIds_def)
  have due: "timerOf b h = Some x \<Longrightarrow> now b + d \<le> fst x" for h x
    using assms(2) by (auto simp: timerOf_def dest!: map_of_SomeD)
  show ?thesis
  proof (rule bridgeInvI)
    fix h x assume "timerOf ?b h = Some x"
    then show "0 < h \<and> h < nextTimer ?b \<and> now ?b \<le> fst x"
      using bridgeInvD(1) [OF assms(1), of h x] due [of h x] by (simp add: e)
  next
    show "0 < nextTimer ?b" using bridgeInvD(2) [OF assms(1)] by simp
  next
    show "distinct (map fst (pendingRequests ?b))" using bridgeInvD(3) [OF assms(1)] by simp
  next
    fix rid h assume "pendingOf ?b rid = Some h"
    then show "\<exists>due m. timerOf ?b h = Some (due, RequestTimeout rid m)"
      using bridgeInvD(4) [OF assms(1), of rid h] by (simp add: e)
  next
    fix h due rid m assume "timerOf ?b h = Some (due, RequestTimeout rid m)"
    then show "pendingOf ?b rid = Some h"
      using bridgeInvD(5) [OF assms(1), of h due rid m] by (simp add: e)
  next
    show "distinct (map fst (settled ?b))" using bridgeInvD(6) [OF assms(1)] by simp
  next
    fix rid assume "rid \<in> settledIds ?b"
    then show "pendingOf ?b rid = None" using bridgeInvD(7) [OF assms(1), of rid] by (simp add: e)
  next
    fix rid
    show "(pendingOf ?b rid \<noteq> None \<or> rid \<in> settledIds ?b)
            = (\<exists>k. 1 \<le> k \<and> k \<le> nextRequestId ?b \<and> rid = requestId k)"
      using bridgeInvD(8) [OF assms(1), of rid] by (simp add: e)
  next
    fix t assume "initializeTimer ?b = Some t"
    then have "initializeTimer b = Some t" by simp
    from bridgeInvD(9) [OF assms(1) this]
    show "t < nextTimer ?b \<and> (\<forall>due rid m. timerOf ?b t \<noteq> Some (due, RequestTimeout rid m))"
      by (simp add: e)
  qed
qed

lemma step_inv:
  assumes "bridgeInv b" and "step jp opts ev b = Some b'"
  shows "bridgeInv b'"
proof (cases ev)
  case (CallSendRequest m ps t)
  with assms show ?thesis by (auto simp: step_def sendRequest_inv)
next
  case (Message data)
  with assms show ?thesis by (auto simp: step_def handleMessage_inv)
next
  case (ToolNotification m ps)
  with assms(2) have "b' = sendToolNotification m ps b" by (simp add: step_def)
  with assms(1) show ?thesis by (simp add: bridgeInv_coreI [OF _ sendToolNotification_core])
next
  case InitializeWithRetry
  with assms show ?thesis by (auto simp: step_def sendInitializeWithRetry_inv)
next
  case (Fire h)
  with assms show ?thesis by (auto simp: step_def fireTimer_inv split: if_splits)
next
  case (Elapse d)
  with assms show ?thesis by (auto simp: step_def elapse_inv split: if_splits)
next
  case Render
  with assms(2) have "b' = render b" by (simp add: step_def)
  moreover have "core (render b) = core b" by (simp add: render_def core_def)
  ultimately show ?thesis using assms(1) by (simp add: bridgeInv_coreI)
next
  case (SetWindow w)
  with assms(2) have "b' = b\<lparr>contentWindow := w\<rparr>" by (simp add: step_def)
  moreover have "core (b\<lparr>contentWindow := w\<rparr>) = core b" by (simp add: core_def)
  ultimately show ?thesis using assms(1) by (simp add: bridgeInv_coreI)
next
  case Unmount
  with assms show ?thesis by (auto simp: step_def unmount_inv)
qed

lemma run_inv:
  "bridgeInv b \<Longrightarrow> run jp opts evs b = Some b' \<Longrightarrow> bridgeInv b'"
proof (induction evs arbitrary: b)
  case Nil
  then show ?case by simp
next
  case (Cons ev evs)
  from Cons.prems(2) obtain b1 where s: "step jp opts ev b = Some b1" and r: "run jp opts evs b1 = Some b'"
    by (auto split: option.splits)
  from step_inv [OF Cons.prems(1) s] r show ?case by (rule Cons.IH)
qed


section \<open>Pending requests stay pending with their timers until they are settled\<close>

lemma evolves_refl: "evolves b b"
  by (simp add: evolves_def)

lemma evolves_trans: "evolves a b \<Longrightarrow> evolves b c \<Longrightarrow> evolves a c"
  unfolding evolves_def by blast

lemma evolves_same:
  "pendingOf b' = pendingOf b \<Longrightarrow> timerOf b' = timerOf b \<Longrightarrow> settledIds b' = settledIds b
   \<Longrightarrow> evolves b b'"
  by (simp add: evolves_def)

lemma evolves_core: "core b' = core b \<Longrightarrow> evolves b b'"
  by (rule evolves_same) (simp_all add: core_def pendingOf_def timerOf_def settledIds_def)

lemma evolves_clear_other:
  assumes "bridgeInv b"
    and "\<And>due rid m. timerOf b t \<noteq> Some (due, RequestTimeout rid m)"
  shows "evolves b (clearTimeout t b)"
  unfolding evolves_def
proof (intro conjI allI impI)
  show "settledIds b \<subseteq> settledIds (clearTimeout t b)" by (simp add: clearTimeout_fields)
next
  fix rid h x assume a: "pendingOf b rid = Some h \<and> timerOf b h = Some x"
  from bridgeInvD(4) [OF assms(1), of rid h] a obtain due m where
    "timerOf b h = Some (due, RequestTimeout rid m)" by blast
  with assms(2) have "h \<noteq> t" by blast
  with a show "(pendingOf (clearTimeout t b) rid = Some h \<and> timerOf (clearTimeout t b) h = Some x)
                 \<or> rid \<in> settledIds (clearTimeout t b)"
    by (simp add: clearTimeout_fields)
qed

lemma evolves_setTimeout:
  assumes "bridgeInv b"
  shows "evolves b (snd (setTimeout a d b))"
  unfolding evolves_def
proof (intro conjI allI impI)
  note f = setTimeout_fields [OF fresh_timer [OF assms], of a d]
  show "settledIds b \<subseteq> settledIds (snd (setTimeout a d b))" by (simp add: f)
  fix rid h x assume a: "pendingOf b rid = Some h \<and> timerOf b h = Some x"
  with fresh_timer [OF assms] have "h \<noteq> nextTimer b" by auto
  with a show "(pendingOf (snd (setTimeout a d b)) rid = Some h
                  \<and> timerOf (snd (setTimeout a d b)) h = Some x)
                 \<or> rid \<in> settledIds (snd (setTimeout a d b))"
    by (simp add: f)
qed

lemma evolves_sendRequest:
  assumes "bridgeInv b"
  shows "evolves b (snd (sendRequest method params timeout b))"
proof (cases "contentWindow b")
  case False
  then show ?thesis by (simp add: sendRequest_no_window evolves_refl)
next
  case True
  note f = sendRequest_fields [OF assms True, of "method" "params" "timeout"]
  show ?thesis
    unfolding evolves_def
  proof (intro conjI allI impI)
    show "settledIds b \<subseteq> settledIds (snd (sendRequest method params timeout b))"
      by (simp add: settledIds_def f)
    fix rid h x assume a: "pendingOf b rid = Some h \<and> timerOf b h = Some x"
    with fresh_timer [OF assms] have "h \<noteq> nextTimer b" by auto
    moreover from a fresh_request(1) [OF assms] have "rid \<noteq> requestId (Suc (nextRequestId b))" by auto
    ultimately show "(pendingOf (snd (sendRequest method params timeout b)) rid = Some h
                  \<and> timerOf (snd (sendRequest method params timeout b)) h = Some x)
                 \<or> rid \<in> settledIds (snd (sendRequest method params timeout b))"
      using a by (simp add: f)
  qed
qed

lemma evolves_settle:
  assumes "bridgeInv b" and "pendingOf b rid = Some h"
  shows "evolves b ((clearTimeout h b)\<lparr>pendingRequests := AList.delete rid (pendingRequests b),
                                       settled := settled b @ [(rid, out)]\<rparr>)"
    (is "evolves b ?b")
  unfolding evolves_def
proof (intro conjI allI impI)
  note f = settle_fields [where h = h and b = b and rid = rid and out = out]
  show "settledIds b \<subseteq> settledIds ?b" by (auto simp: f)
  fix rid' h' x assume a: "pendingOf b rid' = Some h' \<and> timerOf b h' = Some x"
  show "(pendingOf ?b rid' = Some h' \<and> timerOf ?b h' = Some x) \<or> rid' \<in> settledIds ?b"
  proof (cases "rid' = rid")
    case True
    then show ?thesis by (simp add: f)
  next
    case False
    from bridgeInvD(4) [OF assms(1), of rid' h'] a obtain due m where
      t: "timerOf b h' = Some (due, RequestTimeout rid' m)" by blast
    from bridgeInvD(4) [OF assms] obtain due0 m0 where
      t0: "timerOf b h = Some (due0, RequestTimeout rid m0)" by blast
    from t t0 False have "h' \<noteq> h" by auto
    with False a show ?thesis by (simp add: f)
  qed
qed

lemma evolves_handleResponse:
  assumes "bridgeInv b"
  shows "evolves b (handleResponse data b)"
proof (cases "pendingOf b (toJSString (getProp data ''id''))")
  case None
  then show ?thesis by (simp add: handleResponse_not_found evolves_refl)
next
  case (Some h)
  show ?thesis by (simp only: handleResponse_found [OF assms Some] evolves_settle [OF assms Some])
qed

lemma evolves_initializeTimer: "evolves b (b\<lparr>initializeTimer := v\<rparr>)"
  by (rule evolves_same) (simp_all add: pendingOf_def timerOf_def settledIds_def)

lemma evolves_sendInitialize:
  "bridgeInv b \<Longrightarrow> evolves b (sendInitialize opts b)"
  by (simp add: sendInitialize_def evolves_sendRequest evolves_refl)

lemma evolves_attemptSend:
  assumes "bridgeInv b"
  shows "evolves b (attemptSend opts b)"
proof (cases "iframeStateRef b = Ready")
  case True
  then show ?thesis by (simp add: attemptSend_def evolves_refl)
next
  case False
  let ?b1 = "b\<lparr>initializeAttempts := initializeAttempts b + 1\<rparr>"
  let ?b2 = "sendInitialize opts ?b1"
  have c1: "core ?b1 = core b" by (simp add: core_def)
  have i1: "bridgeInv ?b1" using assms c1 by (rule bridgeInv_coreI)
  have i2: "bridgeInv ?b2" using i1 by (rule sendInitialize_inv)
  have e2: "evolves b ?b2"
    using evolves_core [OF c1] evolves_sendInitialize [OF i1] by (rule evolves_trans)
  show ?thesis
  proof (cases "initializeAttempts ?b2 < 5")
    case True
    have "evolves b ((snd (setTimeout (AttemptSend opts) 300 ?b2))
                       \<lparr>initializeTimer := Some (fst (setTimeout (AttemptSend opts) 300 ?b2))\<rparr>)"
      using evolves_trans [OF e2 evolves_setTimeout [OF i2]] evolves_initializeTimer
      by (rule evolves_trans)
    then show ?thesis using True by (simp only: attemptSend_unfold [OF False] if_True)
  next
    case f: False
    have "evolves b (?b2\<lparr>initializeTimer := None\<rparr>)"
      using e2 evolves_initializeTimer by (rule evolves_trans)
    then show ?thesis using f by (simp only: attemptSend_unfold [OF False] if_False)
  qed
qed

lemma evolves_clear_initializeTimer:
  assumes "bridgeInv b" and "initializeTimer b = Some t"
  shows "evolves b (clearTimeout t b)"
  using bridgeInvD(9) [OF assms] by (intro evolves_clear_other [OF assms(1)]) simp

lemma evolves_sendInitializeWithRetry:
  assumes "bridgeInv b"
  shows "evolves b (sendInitializeWithRetry opts b)"
proof (cases "iframeStateRef b = Ready")
  case True
  then show ?thesis by (simp add: sendInitializeWithRetry_def evolves_refl)
next
  case False
  let ?b1 = "case initializeTimer b of None \<Rightarrow> b | Some t \<Rightarrow> clearTimeout t b"
  have i1: "bridgeInv ?b1"
    using assms clear_initializeTimer_inv [OF assms] by (cases "initializeTimer b") simp_all
  have e1: "evolves b ?b1"
    using evolves_clear_initializeTimer [OF assms] by (cases "initializeTimer b") (simp_all add: evolves_refl)
  have c: "core (?b1\<lparr>initializeAttempts := 0\<rparr>) = core ?b1" by (simp add: core_def)
  have i2: "bridgeInv (?b1\<lparr>initializeAttempts := 0\<rparr>)" using i1 c by (rule bridgeInv_coreI)
  have "evolves b (attemptSend opts (?b1\<lparr>initializeAttempts := 0\<rparr>))"
    using evolves_trans [OF e1 evolves_core [OF c]] evolves_attemptSend [OF i2]
    by (rule evolves_trans)
  then show ?thesis using False by (simp add: sendInitializeWithRetry_def Let_def)
qed

lemma evolves_cancelInitializeTimer:
  assumes "bridgeInv b"
  shows "evolves b (cancelInitializeTimer b)"
proof (cases "initializeTimer b")
  case None
  then show ?thesis by (simp add: cancelInitializeTimer_def evolves_refl)
next
  case (Some t)
  have "evolves b ((clearTimeout t b)\<lparr>initializeTimer := None\<rparr>)"
    using evolves_clear_initializeTimer [OF assms Some] evolves_initializeTimer
    by (rule evolves_trans)
  then show ?thesis using Some by (simp add: cancelInitializeTimer_def)
qed

lemma evolves_handleInitialized:
  assumes "bridgeInv b"
  shows "evolves b (handleInitialized jp opts b)"
proof -
  have "evolves (cancelInitializeTimer b) (handleInitialized jp opts b)"
    using evolves_core [OF iframeState_core] evolves_core [OF handleInitialized_core]
    by (rule evolves_trans)
  with evolves_cancelInitializeTimer [OF assms] show ?thesis by (rule evolves_trans)
qed

lemma evolves_handleLegacyInitialize:
  assumes "bridgeInv b"
  shows "evolves b (handleLegacyInitialize opts rid b)"
  using evolves_cancelInitializeTimer [OF assms] evolves_core [OF handleLegacyInitialize_core]
  by (rule evolves_trans)

lemma evolves_handleMessage:
  assumes "bridgeInv b"
  shows "evolves b (handleMessage jp opts data b)"
proof (rule handleMessage_shape)
  show "evolves b b" by (rule evolves_refl)
  show "evolves b (handleResponse data b)" using assms by (rule evolves_handleResponse)
  show "evolves b (sendInitializeWithRetry opts b)" using assms by (rule evolves_sendInitializeWithRetry)
  show "evolves b (handleInitialized jp opts b)" using assms by (rule evolves_handleInitialized)
  show "evolves b (handleLegacyInitialize opts (getProp data ''id'') b)"
    using assms by (rule evolves_handleLegacyInitialize)
  show "\<And>b'. core b' = core b \<Longrightarrow> evolves b b'" by (rule evolves_core)
qed

lemma evolves_fireTimer:
  assumes "bridgeInv b"
  shows "evolves b (fireTimer h b)"
proof (cases "timerOf b h")
  case None
  then show ?thesis by (simp add: fireTimer_none evolves_refl)
next
  case (Some x)
  obtain due action where x: "x = (due, action)" by (cases x)
  show ?thesis
  proof (cases action)
    case (RequestTimeout rid m)
    with Some x have t: "timerOf b h = Some (due, RequestTimeout rid m)" by simp
    from bridgeInvD(5) [OF assms t] have p: "pendingOf b rid = Some h" .
    show ?thesis by (simp only: fireTimer_request [OF t] evolves_settle [OF assms p])
  next
    case (AttemptSend o')
    with Some x have t: "timerOf b h = Some (due, AttemptSend o')" by simp
    have n: "\<And>due rid m. timerOf b h \<noteq> Some (due, RequestTimeout rid m)" using t by simp
    have "bridgeInv (clearTimeout h b)" using assms n by (rule clearTimeout_other_inv)
    from evolves_clear_other [OF assms n] evolves_attemptSend [OF this]
    show ?thesis by (simp only: fireTimer_attempt [OF t]) (rule evolves_trans)
  qed
qed

lemma evolves_unmount:
  assumes "bridgeInv b"
  shows "evolves b (unmount b)"
  unfolding evolves_def
proof (intro conjI allI impI)
  note f = unmount_fields [OF assms]
  have sid: "settledIds (unmount b) = settledIds b \<union> fst ` set (pendingRequests b)"
    by (simp add: settledIds_def f(2) image_Un image_image)
  show "settledIds b \<subseteq> settledIds (unmount b)" by (simp add: sid)
  fix rid h x assume "pendingOf b rid = Some h \<and> timerOf b h = Some x"
  then have "(rid, h) \<in> set (pendingRequests b)" by (auto simp: pendingOf_def dest: map_of_SomeD)
  then have "rid \<in> fst ` set (pendingRequests b)" by force
  then show "(pendingOf (unmount b) rid = Some h \<and> timerOf (unmount b) h = Some x)
               \<or> rid \<in> settledIds (unmount b)"
    by (simp add: sid)
qed

lemma evolves_step:
  assumes "bridgeInv b" and "step jp opts ev b = Some b'"
  shows "evolves b b'"
proof (cases ev)
  case (CallSendRequest m ps t)
  with assms show ?thesis by (auto simp: step_def evolves_sendRequest)
next
  case (Message data)
  with assms show ?thesis by (auto simp: step_def evolves_handleMessage)
next
  case (ToolNotification m ps)
  with assms(2) have "b' = sendToolNotification m ps b" by (simp add: step_def)
  then show ?thesis by (simp add: evolves_core [OF sendToolNotification_core])
next
  case InitializeWithRetry
  with assms show ?thesis by (auto simp: step_def evolves_sendInitializeWithRetry)
next
  case (Fire h)
  with assms show ?thesis by (auto simp: step_def evolves_fireTimer split: if_splits)
next
  case (Elapse d)
  with assms(2) have "b' = b\<lparr>now := now b + d\<rparr>" by (auto simp: step_def split: if_splits)
  then show ?thesis
    by (intro evolves_same) (simp_all add: pendingOf_def timerOf_def settledIds_def)
next
  case Render
  with assms(2) have "b' = render b" by (simp add: step_def)
  moreover have "core (render b) = core b" by (simp add: render_def core_def)
  ultimately show ?thesis by (simp add: evolves_core)
next
  case (SetWindow w)
  with assms(2) have "b' = b\<lparr>contentWindow := w\<rparr>" by (simp add: step_def)
  moreover have "core (b\<lparr>contentWindow := w\<rparr>) = core b" by (simp add: core_def)
  ultimately show ?thesis by (simp add: evolves_core)
next
  case Unmount
  with assms show ?thesis by (auto simp: step_def evolves_unmount)
qed

lemma evolves_run:
  "bridgeInv b \<Longrightarrow> run jp opts evs b = Some b' \<Longrightarrow> evolves b b'"
proof (induction evs arbitrary: b)
  case Nil
  then show ?case by (simp add: evolves_refl)
next
  case (Cons ev evs)
  from Cons.prems(2) obtain b1 where s: "step jp opts ev b = Some b1" and r: "run jp opts evs b1 = Some b'"
    by (auto split: option.splits)
  from evolves_step [OF Cons.prems(1) s] Cons.IH [OF step_inv [OF Cons.prems(1) s] r]
  show ?case by (rule evolves_trans)
qed


section \<open>Every request is settled exactly once\<close>

lemma handleMessage_response:
  assumes "getProp data ''jsonrpc'' = JStr ''2.0''" and "hasKey data ''id''"
    and "\<not> hasKey data ''method''"
  shows "handleMessage jp opts data b = handleResponse data b"
proof -
  from assms(2) obtain kvs where "data = JObj kvs" by (cases data) simp_all
  then have "truthy data" by simp
  with assms show ?thesis by (simp add: handleMessage_def)
qed

lemma settle_isolated:
  assumes "bridgeInv b" and "pendingOf b rid = Some h"
    and "b' = (clearTimeout h b)\<lparr>pendingRequests := AList.delete rid (pendingRequests b),
                                  settled := settled b @ [(rid, out)]\<rparr>"
  shows "pendingRequests b' = AList.delete rid (pendingRequests b)
       \<and> settled b' = settled b @ [(rid, out)]
       \<and> timers b' = filter (\<lambda>t. fst t \<noteq> h) (timers b)
       \<and> (\<forall>rid' h'. rid' \<noteq> rid \<and> pendingOf b rid' = Some h' \<longrightarrow>
              pendingOf b' rid' = Some h' \<and> timerOf b' h' = timerOf b h')"
proof -
  note f = settle_fields [where h = h and b = b and rid = rid and out = out]
  from bridgeInvD(4) [OF assms(1,2)] obtain due0 m0 where
    t0: "timerOf b h = Some (due0, RequestTimeout rid m0)" by blast
  have "\<forall>rid' h'. rid' \<noteq> rid \<and> pendingOf b rid' = Some h' \<longrightarrow>
              pendingOf b' rid' = Some h' \<and> timerOf b' h' = timerOf b h'"
  proof (intro allI impI)
    fix rid' h' assume a: "rid' \<noteq> rid \<and> pendingOf b rid' = Some h'"
    from bridgeInvD(4) [OF assms(1), of rid' h'] a obtain due m where
      "timerOf b h' = Some (due, RequestTimeout rid' m)" by blast
    with t0 a have "h' \<noteq> h" by auto
    with a show "pendingOf b' rid' = Some h' \<and> timerOf b' h' = timerOf b h'"
      by (simp add: assms(3) f)
  qed
  then show ?thesis by (simp add: assms(3) f(8,9)) (simp add: clearTimeout_def)
qed

lemma sendRequest_deadline:
  assumes "bridgeInv b" and "contentWindow b"
    and "run jp opts evs' (snd (sendRequest m ps t b)) = Some b'"
    and "now b + t < now b'"
  shows "requestId (Suc (nextRequestId b)) \<in> fst ` set (settled b')"
    and "requestId (Suc (nextRequestId b)) \<notin> fst ` set (pendingRequests b')"
proof -
  let ?rid = "requestId (Suc (nextRequestId b))"
  let ?b2 = "snd (sendRequest m ps t b)"
  note f = sendRequest_fields [OF assms(1,2), of m ps t]
  have i2: "bridgeInv ?b2" using assms(1) by (rule sendRequest_inv)
  have i': "bridgeInv b'" using i2 assms(3) by (rule run_inv)
  have p2: "pendingOf ?b2 ?rid = Some (nextTimer b)"
    and t2: "timerOf ?b2 (nextTimer b) = Some (now b + t, RequestTimeout ?rid m)"
    by (simp_all add: f)
  from evolves_run [OF i2 assms(3)] p2 t2
  have "(pendingOf b' ?rid = Some (nextTimer b)
           \<and> timerOf b' (nextTimer b) = Some (now b + t, RequestTimeout ?rid m))
        \<or> ?rid \<in> settledIds b'"
    unfolding evolves_def by blast
  moreover have "timerOf b' (nextTimer b) \<noteq> Some (now b + t, RequestTimeout ?rid m)"
    using bridgeInvD(1) [OF i', of "nextTimer b" "(now b + t, RequestTimeout ?rid m)"] assms(4)
    by auto
  ultimately have s: "?rid \<in> settledIds b'" by blast
  then show "?rid \<in> fst ` set (settled b')" by (simp add: settledIds_def)
  from bridgeInvD(7) [OF i' s] show "?rid \<notin> fst ` set (pendingRequests b')"
    by (simp add: pendingOf_def map_of_eq_None_iff)
qed

lemma step_progress:
  "(\<exists>h. step jp opts (Fire h) b \<noteq> None) \<or> step jp opts (Elapse 1) b \<noteq> None"
proof (cases "\<forall>t \<in> set (timers b). now b + 1 \<le> fst (snd t)")
  case True
  then show ?thesis by (simp add: step_def)
next
  case False
  then obtain t where "t \<in> set (timers b)" "fst (snd t) \<le> now b" by auto
  then have "step jp opts (Fire (fst t)) b \<noteq> None" by (auto simp: step_def)
  then show ?thesis by blast
qed

text \<open>
  C5. In every state that a bridge reaches: no request id is settled twice; a settled id
  is no longer in the pending-request map; every id created by \<open>sendRequest\<close> is pending or
  settled; and every pending request has an armed timer, not overdue, that will reject
  it. \<open>sendRequest\<close> without an iframe window rejects at once. A request sent with a
  timeout is settled and removed from the map in every later state whose clock is past
  the timeout, and the clock can always advance once the timers that are due have fired.
  A matching response, and the firing of a request's timer, settle that request only:
  the other pending requests and their timers are untouched. Unmount rejects every
  pending request once and empties the map.
\<close>

theorem pending_requests_settled_exactly_once:
  assumes "run jp opts evs newBridge = Some b"
  shows "distinct (map fst (settled b))
       \<and> fst ` set (settled b) \<inter> fst ` set (pendingRequests b) = {}
       \<and> (\<forall>k. 1 \<le> k \<and> k \<le> nextRequestId b \<longrightarrow>
              requestId k \<in> fst ` set (pendingRequests b) \<union> fst ` set (settled b))
       \<and> (\<forall>e \<in> set (pendingRequests b). \<exists>due m.
              (snd e, due, RequestTimeout (fst e) m) \<in> set (timers b) \<and> now b \<le> due)
       \<and> (\<not> contentWindow b \<longrightarrow>
              sendRequest m ps t b = (Inl (Error ''Iframe not ready''), b))
       \<and> (contentWindow b \<longrightarrow>
              fst (sendRequest m ps t b) = Inr (requestId (Suc (nextRequestId b)))
              \<and> requestId (Suc (nextRequestId b))
                   \<notin> fst ` set (pendingRequests b) \<union> fst ` set (settled b)
              \<and> (run jp opts evs' (snd (sendRequest m ps t b)) = Some b' \<and> now b + t < now b' \<longrightarrow>
                    requestId (Suc (nextRequestId b)) \<in> fst ` set (settled b')
                    \<and> requestId (Suc (nextRequestId b)) \<notin> fst ` set (pendingRequests b')))
       \<and> ((\<exists>h. step jp opts (Fire h) b \<noteq> None) \<or> step jp opts (Elapse 1) b \<noteq> None)
       \<and> (getProp data ''jsonrpc'' = JStr ''2.0'' \<and> hasKey data ''id'' \<and> \<not> hasKey data ''method''
            \<and> toJSString (getProp data ''id'') = rid \<longrightarrow>
            (pendingOf b rid = None \<longrightarrow> handleMessage jp opts data b = b)
            \<and> (\<forall>h. pendingOf b rid = Some h \<longrightarrow>
                 pendingRequests (handleMessage jp opts data b) = AList.delete rid (pendingRequests b)
                 \<and> settled (handleMessage jp opts data b)
                     = settled b @ [(rid, if hasKey data ''error'' then RejectedWith (getProp data ''error'')
                                          else Resolved (getProp data ''result''))]
                 \<and> timers (handleMessage jp opts data b) = filter (\<lambda>t. fst t \<noteq> h) (timers b)
                 \<and> (\<forall>rid' h'. rid' \<noteq> rid \<and> pendingOf b rid' = Some h' \<longrightarrow>
                        pendingOf (handleMessage jp opts data b) rid' = Some h'
                        \<and> timerOf (handleMessage jp opts data b) h' = timerOf b h')))
       \<and> (\<forall>h due method. timerOf b h = Some (due, RequestTimeout rid method) \<longrightarrow>
              pendingRequests (fireTimer h b) = AList.delete rid (pendingRequests b)
              \<and> settled (fireTimer h b)
                  = settled b @ [(rid, Rejected (Error (''Request timeout: '' @ method)))]
              \<and> timers (fireTimer h b) = filter (\<lambda>t. fst t \<noteq> h) (timers b)
              \<and> (\<forall>rid' h'. rid' \<noteq> rid \<and> pendingOf b rid' = Some h' \<longrightarrow>
                     pendingOf (fireTimer h b) rid' = Some h'
                     \<and> timerOf (fireTimer h b) h' = timerOf b h'))
       \<and> pendingRequests (unmount b) = []
       \<and> settled (unmount b)
           = settled b @ map (\<lambda>e. (fst e, Rejected (Error ''Component unmounted''))) (pendingRequests b)
       \<and> distinct (map fst (settled (unmount b)))"
proof -
  have i: "bridgeInv b" using bridgeInv_newBridge assms by (rule run_inv)
  have A: "distinct (map fst (settled b))" by (rule bridgeInvD(6) [OF i])
  have B: "fst ` set (settled b) \<inter> fst ` set (pendingRequests b) = {}"
  proof -
    have "rid \<in> fst ` set (settled b) \<Longrightarrow> rid \<notin> fst ` set (pendingRequests b)" for rid
      using bridgeInvD(7) [OF i, of rid] by (simp add: settledIds_def pendingOf_def map_of_eq_None_iff)
    then show ?thesis by blast
  qed
  have C: "\<forall>k. 1 \<le> k \<and> k \<le> nextRequestId b \<longrightarrow>
              requestId k \<in> fst ` set (pendingRequests b) \<union> fst ` set (settled b)"
  proof (intro allI impI)
    fix k assume "1 \<le> k \<and> k \<le> nextRequestId b"
    then have "pendingOf b (requestId k) \<noteq> None \<or> requestId k \<in> settledIds b"
      using bridgeInvD(8) [OF i, of "requestId k"] by blast
    then show "requestId k \<in> fst ` set (pendingRequests b) \<union> fst ` set (settled b)"
      by (auto simp: settledIds_def pendingOf_def map_of_eq_None_iff)
  qed
  have D: "\<forall>e \<in> set (pendingRequests b). \<exists>due m.
              (snd e, due, RequestTimeout (fst e) m) \<in> set (timers b) \<and> now b \<le> due"
  proof
    fix e assume "e \<in> set (pendingRequests b)"
    then have "pendingOf b (fst e) = Some (snd e)"
      using bridgeInvD(3) [OF i] by (simp add: pendingOf_def)
    from bridgeInvD(4) [OF i this] obtain due m where
      t: "timerOf b (snd e) = Some (due, RequestTimeout (fst e) m)" by blast
    from bridgeInvD(1) [OF i t] have "now b \<le> due" by simp
    moreover from t have "(snd e, due, RequestTimeout (fst e) m) \<in> set (timers b)"
      by (simp add: timerOf_def map_of_SomeD)
    ultimately show "\<exists>due m. (snd e, due, RequestTimeout (fst e) m) \<in> set (timers b) \<and> now b \<le> due"
      by blast
  qed
  have E: "\<not> contentWindow b \<longrightarrow> sendRequest m ps t b = (Inl (Error ''Iframe not ready''), b)"
    by (simp add: sendRequest_no_window)
  have F: "contentWindow b \<longrightarrow>
              fst (sendRequest m ps t b) = Inr (requestId (Suc (nextRequestId b)))
              \<and> requestId (Suc (nextRequestId b))
                   \<notin> fst ` set (pendingRequests b) \<union> fst ` set (settled b)
              \<and> (run jp opts evs' (snd (sendRequest m ps t b)) = Some b' \<and> now b + t < now b' \<longrightarrow>
                    requestId (Suc (nextRequestId b)) \<in> fst ` set (settled b')
                    \<and> requestId (Suc (nextRequestId b)) \<notin> fst ` set (pendingRequests b'))"
  proof (intro impI conjI)
    assume w: "contentWindow b"
    show "fst (sendRequest m ps t b) = Inr (requestId (Suc (nextRequestId b)))"
      by (rule sendRequest_fields(1) [OF i w])
    show "requestId (Suc (nextRequestId b))
            \<notin> fst ` set (pendingRequests b) \<union> fst ` set (settled b)"
      using fresh_request [OF i] by (simp add: settledIds_def pendingOf_def map_of_eq_None_iff)
    assume r: "run jp opts evs' (snd (sendRequest m ps t b)) = Some b' \<and> now b + t < now b'"
    then show "requestId (Suc (nextRequestId b)) \<in> fst ` set (settled b')"
      using sendRequest_deadline(1) [OF i w] by blast
    from r show "requestId (Suc (nextRequestId b)) \<notin> fst ` set (pendingRequests b')"
      using sendRequest_deadline(2) [OF i w] by blast
  qed
  have J: "(\<exists>h. step jp opts (Fire h) b \<noteq> None) \<or> step jp opts (Elapse 1) b \<noteq> None"
    by (rule step_progress)
  have G: "getProp data ''jsonrpc'' = JStr ''2.0'' \<and> hasKey data ''id'' \<and> \<not> hasKey data ''method''
            \<and> toJSString (getProp data ''id'') = rid \<longrightarrow>
            (pendingOf b rid = None \<longrightarrow> handleMessage jp opts data b = b)
            \<and> (\<forall>h. pendingOf b rid = Some h \<longrightarrow>
                 pendingRequests (handleMessage jp opts data b) = AList.delete rid (pendingRequests b)
                 \<and> settled (handleMessage jp opts data b)
                     = settled b @ [(rid, if hasKey data ''error'' then RejectedWith (getProp data ''error'')
                                          else Resolved (getProp data ''result''))]
                 \<and> timers (handleMessage jp opts data b) = filter (\<lambda>t. fst t \<noteq> h) (timers b)
                 \<and> (\<forall>rid' h'. rid' \<noteq> rid \<and> pendingOf b rid' = Some h' \<longrightarrow>
                        pendingOf (handleMessage jp opts data b) rid' = Some h'
                        \<and> timerOf (handleMessage jp opts data b) h' = timerOf b h'))"
  proof (intro impI conjI allI)
    assume a: "getProp data ''jsonrpc'' = JStr ''2.0'' \<and> hasKey data ''id'' \<and> \<not> hasKey data ''method''
            \<and> toJSString (getProp data ''id'') = rid"
    then have hm: "handleMessage jp opts data b = handleResponse data b"
      by (intro handleMessage_response) simp_all
    from a have rid: "toJSString (getProp data ''id'') = rid" by simp
    {
      assume "pendingOf b rid = None"
      then show "handleMessage jp opts data b = b"
        by (simp add: hm handleResponse_not_found rid)
    }
    fix h assume p: "pendingOf b rid = Some h"
    then have p': "pendingOf b (toJSString (getProp data ''id'')) = Some h" by (simp add: rid)
    note s = settle_isolated [OF i p, where b' = "handleMessage jp opts data b"
        and out = "if hasKey data ''error'' then RejectedWith (getProp data ''error'')
                   else Resolved (getProp data ''result'')"]
    have eq: "handleMessage jp opts data b =
       (clearTimeout h b)\<lparr>pendingRequests := AList.delete rid (pendingRequests b),
          settled := settled b @ [(rid, if hasKey data ''error'' then RejectedWith (getProp data ''error'')
                   else Resolved (getProp data ''result''))]\<rparr>"
      using handleResponse_found [OF i p'] by (simp add: hm rid)
    from s [OF eq]
    show "pendingRequests (handleMessage jp opts data b) = AList.delete rid (pendingRequests b)"
      and "settled (handleMessage jp opts data b)
                     = settled b @ [(rid, if hasKey data ''error'' then RejectedWith (getProp data ''error'')
                                          else Resolved (getProp data ''result''))]"
      and "timers (handleMessage jp opts data b) = filter (\<lambda>t. fst t \<noteq> h) (timers b)"
      and "\<And>rid' h'. rid' \<noteq> rid \<and> pendingOf b rid' = Some h' \<Longrightarrow>
                        pendingOf (handleMessage jp opts data b) rid' = Some h'"
      and "\<And>rid' h'. rid' \<noteq> rid \<and> pendingOf b rid' = Some h' \<Longrightarrow>
                        timerOf (handleMessage jp opts data b) h' = timerOf b h'"
      by blast+
  qed
  have H: "\<forall>h due method. timerOf b h = Some (due, RequestTimeout rid method) \<longrightarrow>
              pendingRequests (fireTimer h b) = AList.delete rid (pendingRequests b)
              \<and> settled (fireTimer h b)
                  = settled b @ [(rid, Rejected (Error (''Request timeout: '' @ method)))]
              \<and> timers (fireTimer h b) = filter (\<lambda>t. fst t \<noteq> h) (timers b)
              \<and> (\<forall>rid' h'. rid' \<noteq> rid \<and> pendingOf b rid' = Some h' \<longrightarrow>
                     pendingOf (fireTimer h b) rid' = Some h'
                     \<and> timerOf (fireTimer h b) h' = timerOf b h')"
  proof (intro allI impI)
    fix h due mth assume t: "timerOf b h = Some (due, RequestTimeout rid mth)"
    from bridgeInvD(5) [OF i t] have p: "pendingOf b rid = Some h" .
    show "pendingRequests (fireTimer h b) = AList.delete rid (pendingRequests b)
              \<and> settled (fireTimer h b)
                  = settled b @ [(rid, Rejected (Error (''Request timeout: '' @ mth)))]
              \<and> timers (fireTimer h b) = filter (\<lambda>t. fst t \<noteq> h) (timers b)
              \<and> (\<forall>rid' h'. rid' \<noteq> rid \<and> pendingOf b rid' = Some h' \<longrightarrow>
                     pendingOf (fireTimer h b) rid' = Some h'
                     \<and> timerOf (fireTimer h b) h' = timerOf b h')"
      by (rule settle_isolated [OF i p fireTimer_request [OF t]])
  qed
  note u = unmount_fields [OF i]
  have U: "distinct (map fst (settled (unmount b)))"
    by (rule bridgeInvD(6) [OF unmount_inv [OF i]])
  from A B C D E F J G H u(1,2) U show ?thesis by blast
qed

theorem pending_requests_settled_exactly_once_witness:
  "(let jp = (\<lambda>s. Inl SyntaxError);
        opts = \<lparr> appId = ''app-1'', html = None, toolInfo = JUndefined, toolArguments = JUndefined,
                 toolResult = JUndefined, persistedState = JUndefined, isComplete = False,
                 hostContext = [], hasOnToolCall = False \<rparr>;
        b = newBridge\<lparr>contentWindow := True, nextRequestId := 1,
              pendingRequests := [(''host-1'', 1)],
              timers := [(1, 5000, RequestTimeout ''host-1'' ''ping'')], nextTimer := 2,
              posted := [rpcRequest ''host-1'' ''ping'' JNull]\<rparr>;
        b' = b\<lparr>nextRequestId := 2, pendingRequests := [], timers := [], nextTimer := 3,
               posted := [rpcRequest ''host-1'' ''ping'' JNull,
                          rpcRequest ''host-2'' ''ui/initialize'' JNull],
               settled := [(''host-1'', Resolved (JBool True)),
                           (''host-2'', Rejected (Error ''Request timeout: ui/initialize''))],
               now := 2005\<rparr>
    in run jp opts [SetWindow True, CallSendRequest ''ping'' JNull 5000] newBridge = Some b
       \<and> fst (sendRequest ''ui/initialize'' JNull 2000 b) = Inr ''host-2''
       \<and> run jp opts
            [Message (JObj [(''jsonrpc'', JStr ''2.0''), (''id'', JStr ''host-1''),
                            (''result'', JBool True)]),
             Elapse 2000, Fire 2, Elapse 5]
            (snd (sendRequest ''ui/initialize'' JNull 2000 b)) = Some b'
       \<and> contentWindow b \<and> now b + 2000 < now b'
       \<and> ''host-2'' \<in> fst ` set (settled b')
       \<and> ''host-2'' \<notin> fst ` set (pendingRequests b')
       \<and> settled (handleMessage jp opts
                      (JObj [(''jsonrpc'', JStr ''2.0''), (''id'', JStr ''host-1''),
                             (''result'', JBool True)]) b)
           = [(''host-1'', Resolved (JBool True))]
       \<and> settled (fireTimer 1 b) = [(''host-1'', Rejected (Error ''Request timeout: ping''))]
       \<and> sendRequest ''ping'' JNull 5000 newBridge = (Inl (Error ''Iframe not ready''), newBridge))"
proof -
  define jp where "jp = (\<lambda>s::string. (Inl SyntaxError :: error + jsval))"
  define opts where
    "opts = \<lparr> appId = ''app-1'', html = None, toolInfo = JUndefined, toolArguments = JUndefined,
                 toolResult = JUndefined, persistedState = JUndefined, isComplete = False,
                 hostContext = [], hasOnToolCall = False \<rparr>"
  define b where
    "b = newBridge\<lparr>contentWindow := True, nextRequestId := 1,
              pendingRequests := [(''host-1'', 1)],
              timers := [(1, 5000, RequestTimeout ''host-1'' ''ping'')], nextTimer := 2,
              posted := [rpcRequest ''host-1'' ''ping'' JNull]\<rparr>"
  define b' where
    "b' = b\<lparr>nextRequestId := 2, pendingRequests := [], timers := [], nextTimer := 3,
               posted := [rpcRequest ''host-1'' ''ping'' JNull,
                          rpcRequest ''host-2'' ''ui/initialize'' JNull],
               settled := [(''host-1'', Resolved (JBool True)),
                           (''host-2'', Rejected (Error ''Request timeout: ui/initialize''))],
               now := 2005\<rparr>"
  define evs' where
    "evs' = [Message (JObj [(''jsonrpc'', JStr ''2.0''), (''id'', JStr ''host-1''),
                            (''result'', JBool True)]),
             Elapse 2000, Fire 2, Elapse 5]"
  have r: "run jp opts [SetWindow True, CallSendRequest ''ping'' JNull 5000] newBridge = Some b"
    unfolding jp_def opts_def b_def by code_simp
  have r': "run jp opts evs' (snd (sendRequest ''ui/initialize'' JNull 2000 b)) = Some b'"
    unfolding jp_def opts_def b_def b'_def evs'_def by code_simp
  have w: "contentWindow b" unfolding b_def by simp
  have t: "now b + 2000 < now b'" unfolding b_def b'_def by (simp add: newBridge_def)
  have n: "requestId (Suc (nextRequestId b)) = ''host-2''" unfolding b_def by code_simp
  define resp where
    "resp = JObj [(''jsonrpc'', JStr ''2.0''), (''id'', JStr ''host-1''), (''result'', JBool True)]"
  note T = pending_requests_settled_exactly_once
      [OF r, where m = "''ui/initialize''" and ps = JNull and t = 2000 and evs' = evs' and b' = b'
         and data = resp and rid = "''host-1''"]
  note G = T [THEN conjunct2, THEN conjunct2, THEN conjunct2, THEN conjunct2, THEN conjunct2,
               THEN conjunct2, THEN conjunct2, THEN conjunct1]
  note H = T [THEN conjunct2, THEN conjunct2, THEN conjunct2, THEN conjunct2, THEN conjunct2,
               THEN conjunct2, THEN conjunct2, THEN conjunct2, THEN conjunct1]
  have gh: "getProp resp ''jsonrpc'' = JStr ''2.0'' \<and> hasKey resp ''id'' \<and> \<not> hasKey resp ''method''
            \<and> toJSString (getProp resp ''id'') = ''host-1''"
    unfolding resp_def by simp
  have pb: "pendingOf b ''host-1'' = Some 1" "settled b = []" "\<not> hasKey resp ''error''"
    "getProp resp ''result'' = JBool True"
    "timerOf b 1 = Some (5000, RequestTimeout ''host-1'' ''ping'')"
    unfolding b_def resp_def by (simp_all add: pendingOf_def timerOf_def newBridge_def)
  from G gh pb(1) have "settled (handleMessage jp opts resp b)
      = settled b @ [(''host-1'', if hasKey resp ''error'' then RejectedWith (getProp resp ''error'')
                                  else Resolved (getProp resp ''result''))]"
    by blast
  then have g: "settled (handleMessage jp opts resp b) = [(''host-1'', Resolved (JBool True))]"
    by (simp add: pb)
  from H pb(5) have "settled (fireTimer 1 b)
      = settled b @ [(''host-1'', Rejected (Error (''Request timeout: '' @ ''ping'')))]"
    by blast
  then have h: "settled (fireTimer 1 b) = [(''host-1'', Rejected (Error ''Request timeout: ping''))]"
    by (simp add: pb)
  have r0: "run jp opts [] newBridge = Some newBridge" by simp
  note E = pending_requests_settled_exactly_once
      [OF r0, where m = "''ping''" and ps = JNull and t = 5000,
       THEN conjunct2, THEN conjunct2, THEN conjunct2, THEN conjunct2, THEN conjunct1]
  have "\<not> contentWindow newBridge" by (simp add: newBridge_def)
  with E have e: "sendRequest ''ping'' JNull 5000 newBridge = (Inl (Error ''Iframe not ready''), newBridge)"
    by blast
  note F = T [THEN conjunct2, THEN conjunct2, THEN conjunct2, THEN conjunct2, THEN conjunct2,
               THEN conjunct1]
  from F w r' t have "fst (sendRequest ''ui/initialize'' JNull 2000 b) = Inr (requestId (Suc (nextRequestId b)))
        \<and> requestId (Suc (nextRequestId b)) \<in> fst ` set (settled b')
        \<and> requestId (Suc (nextRequestId b)) \<notin> fst ` set (pendingRequests b')"
    by blast
  then have f: "fst (sendRequest ''ui/initialize'' JNull 2000 b) = Inr ''host-2''
        \<and> ''host-2'' \<in> fst ` set (settled b')
        \<and> ''host-2'' \<notin> fst ` set (pendingRequests b')"
    unfolding n .
  have all: "run jp opts [SetWindow True, CallSendRequest ''ping'' JNull 5000] newBridge = Some b
       \<and> fst (sendRequest ''ui/initialize'' JNull 2000 b) = Inr ''host-2''
       \<and> run jp opts evs' (snd (sendRequest ''ui/initialize'' JNull 2000 b)) = Some b'
       \<and> contentWindow b \<and> now b + 2000 < now b'
       \<and> ''host-2'' \<in> fst ` set (settled b')
       \<and> ''host-2'' \<notin> fst ` set (pendingRequests b')
       \<and> settled (handleMessage jp opts resp b) = [(''host-1'', Resolved (JBool True))]
       \<and> settled (fireTimer 1 b) = [(''host-1'', Rejected (Error ''Request timeout: ping''))]
       \<and> sendRequest ''ping'' JNull 5000 newBridge = (Inl (Error ''Iframe not ready''), newBridge)"
    using r r' w t f g h e by blast
  show ?thesis
    unfolding Let_def by (rule all [unfolded jp_def opts_def b'_def b_def evs'_def resp_def])
qed

end
